theory Spec2Isabelle
  imports Main "HOL-Library.Sublist" "HOL-Library.Product_Lexorder"
begin

section \<open>Data model\<close>

text \<open>
  The library manager of \<^verbatim>\<open>controller/library/manager.go\<close>. A \<^verbatim>\<open>time.Time\<close> is the number
  of nanoseconds since the Unix epoch, a \<^verbatim>\<open>time.Duration\<close> a number of nanoseconds. A Go
  \<^verbatim>\<open>error\<close> is the message its \<^verbatim>\<open>Error()\<close> method returns; a function returning
  \<^verbatim>\<open>(v, err)\<close> returns the pair of \<open>v\<close> and \<open>None\<close> (for \<^verbatim>\<open>nil\<close>) or \<open>Some e\<close>.
  The clock is one reading: Go's wall-clock and monotonic readings are not told apart.
  The metadata of a file and the settings of the command decider are opaque to the
  manager: they are the type parameters \<open>'md\<close> and \<open>'cs\<close>; the zero value of the metadata
  type is \<open>0\<close>.
\<close>

type_synonym time = int

type_synonym duration = int

datatype error = Err (message: string)

type_synonym 'a result = "'a \<times> error option"

text \<open>
  \<^verbatim>\<open>controller.Job\<close> and \<^verbatim>\<open>controller.Library\<close> are declared outside this file; the fields
  are the ones the manager reads and writes. Modelled from the spec: the priority value of
  a Library, which the code of this file only names in a comment.
\<close>

record 'md Job =
  UUID :: string
  Path :: string
  Command :: "string list"
  Metadata :: 'md

record ('md, 'cs) Library =
  ID :: int
  Folder :: string
  Priority :: int
  FsCheckInterval :: duration
  Queue :: "'md Job list"
  PathMasks :: "string list"
  CommandDeciderSettings :: 'cs

text \<open>
  Modelled from the spec: the Library Queue (\<^verbatim>\<open>controller.LibraryQueue\<close>, declared outside
  this file) is an ordered collection of Jobs, here the list of them in insertion order, and
  its \<^verbatim>\<open>Push\<close> is an ordered push that preserves insertion order.
\<close>

definition Push :: "'md Job \<Rightarrow> 'md Job list \<Rightarrow> 'md Job list" where
  "Push item q = q @ [item]"

text \<open>
  Modelled from the spec: \<^verbatim>\<open>InQueuePath\<close> of the Library Queue is the existence check by
  path: some Job in the queue has the path of the given Job.
\<close>

definition InQueuePath :: "'md Job list \<Rightarrow> 'md Job \<Rightarrow> bool" where
  "InQueuePath q item = list_ex (\<lambda>i. Path i = Path item) q"

text \<open>\<^verbatim>\<open>strings.Contains(s, substr)\<close>: \<open>substr\<close> occurs in \<open>s\<close> as a contiguous run.\<close>

primrec strings_Contains :: "string \<Rightarrow> string \<Rightarrow> bool" where
  "strings_Contains [] substr = (substr = [])"
| "strings_Contains (c # s) substr = (prefix substr (c # s) \<or> strings_Contains s substr)"

text \<open>
  \<^verbatim>\<open>time.Unix(0, 0)\<close> and \<^verbatim>\<open>Time.Sub\<close>, which saturates at the largest and smallest
  \<^verbatim>\<open>Duration\<close> (a 64-bit signed count of nanoseconds).
\<close>

definition time_Unix00 :: time where
  "time_Unix00 = 0"

definition maxDuration :: duration where
  "maxDuration = 2 ^ 63 - 1"

definition minDuration :: duration where
  "minDuration = - (2 ^ 63)"

definition time_Sub :: "time \<Rightarrow> time \<Rightarrow> duration" where
  "time_Sub t u =
     (let d = t - u in
      if d > maxDuration then maxDuration else if d < minDuration then minDuration else d)"

section \<open>The manager, its collaborators and its state\<close>

text \<open>
  What the logger received: the level, the format string and the arguments, in order.
\<close>

datatype level = Debug | Info | Error | Critical

datatype arg = ArgString string | ArgInt int | ArgError error

type_synonym entry = "level \<times> string \<times> arg list"

text \<open>
  The calls made to the collaborators and the pushes onto the queue, in order. The
  dispatch check is recorded with its answer.
\<close>

datatype ('md, 'cs) event =
    Ev_Libraries
  | Ev_VideoFiles string
  | Ev_IsPathDispatched string "bool result"
  | Ev_Read string
  | Ev_Decide 'md 'cs
  | Ev_Push "'md Job"
  | Ev_SaveLibrary "('md, 'cs) Library"

text \<open>
  The collaborators the \<^verbatim>\<open>Manager\<close> struct holds are interfaces: the data store
  \<^verbatim>\<open>ds\<close>, the \<^verbatim>\<open>metadataReader\<close>, the \<^verbatim>\<open>commandDecider\<close> and the \<^verbatim>\<open>videoFileser\<close>. Each of
  their methods is a function that reads and changes the world outside the manager
  (a value of the type parameter \<open>'w\<close>: the database, the file system, the clock) and returns
  its Go results. \<^verbatim>\<open>uuid.NewString\<close> and \<^verbatim>\<open>time.Now\<close> are taken the same way.
\<close>

record ('w, 'md, 'cs) Manager =
  ds_Libraries :: "'w \<Rightarrow> ('md, 'cs) Library list result \<times> 'w"
  ds_IsPathDispatched :: "string \<Rightarrow> 'w \<Rightarrow> bool result \<times> 'w"
  ds_SaveLibrary :: "('md, 'cs) Library \<Rightarrow> 'w \<Rightarrow> error option \<times> 'w"
  metadataReader_Read :: "string \<Rightarrow> 'w \<Rightarrow> 'md result \<times> 'w"
  commandDecider_Decide :: "'md \<Rightarrow> 'cs \<Rightarrow> 'w \<Rightarrow> string list result \<times> 'w"
  videoFileser_VideoFiles :: "string \<Rightarrow> 'w \<Rightarrow> string list result \<times> 'w"
  uuid_NewString :: "'w \<Rightarrow> string \<times> 'w"
  time_Now :: "'w \<Rightarrow> time \<times> 'w"

text \<open>
  The state the manager's methods change: its two maps, what its logger received, the
  events so far, and the world outside.
\<close>

record ('w, 'md, 'cs) state =
  lastCheckedTimes :: "int \<rightharpoonup> time"
  workerCompletedMap :: "int \<rightharpoonup> bool"
  logged :: "entry list"
  trace :: "('md, 'cs) event list"
  world :: "'w"

text \<open>\<^verbatim>\<open>NewManager\<close> starts with both maps empty.\<close>

definition NewManager :: "'w \<Rightarrow> ('w, 'md, 'cs) state" where
  "NewManager w =
     \<lparr>lastCheckedTimes = Map.empty, workerCompletedMap = Map.empty, logged = [], trace = [],
      world = w\<rparr>"

text \<open>A call of the logger, and a call of a collaborator that leaves the world \<open>w\<close>.\<close>

definition log ::
  "level \<Rightarrow> string \<Rightarrow> arg list \<Rightarrow> ('w, 'md, 'cs) state \<Rightarrow> ('w, 'md, 'cs) state" where
  "log lv fmt args s = s\<lparr>logged := logged s @ [(lv, fmt, args)]\<rparr>"

definition called ::
  "('md, 'cs) event \<Rightarrow> 'w \<Rightarrow> ('w, 'md, 'cs) state \<Rightarrow> ('w, 'md, 'cs) state" where
  "called ev w s = s\<lparr>trace := trace s @ [ev], world := w\<rparr>"

section \<open>The scan worker: \<^verbatim>\<open>updateLibraryQueue\<close>\<close>

text \<open>
  Lines 132 to 142: the job is built, pushed onto the queue of the worker's copy of
  the library and the library is saved; the error \<^verbatim>\<open>SaveLibrary\<close> returns is dropped.
\<close>

definition enqueue ::
  "('w, 'md, 'cs) Manager \<Rightarrow> string \<Rightarrow> 'md \<Rightarrow> string list \<Rightarrow>
   ('md, 'cs) Library \<times> ('w, 'md, 'cs) state \<Rightarrow> ('md, 'cs) Library \<times> ('w, 'md, 'cs) state" where
  "enqueue m videoFilepath fMetadata commandSlice ls =
     (case ls of (lib, s) \<Rightarrow>
      (case uuid_NewString m (world s) of (u, w1) \<Rightarrow>
        let job = \<lparr>UUID = u, Path = videoFilepath, Command = commandSlice, Metadata = fMetadata\<rparr>;
            lib' = lib\<lparr>Queue := Push job (Queue lib)\<rparr>;
            s1 = called (Ev_Push job) w1 s;
            s2 = log Info ''Added %v to Library %v's queue''
                   [ArgString videoFilepath, ArgInt (ID lib')] s1
        in (case ds_SaveLibrary m lib' (world s2) of (err, w2) \<Rightarrow>
              (lib', called (Ev_SaveLibrary lib') w2 s2))))"

text \<open>
  Lines 119 to 130: the metadata is read; a failed read is logged and the loop goes on to
  the command decider with the value the read returned; a failed decision skips the path.
\<close>

definition read_and_decide ::
  "('w, 'md, 'cs) Manager \<Rightarrow> string \<Rightarrow>
   ('md, 'cs) Library \<times> ('w, 'md, 'cs) state \<Rightarrow> ('md, 'cs) Library \<times> ('w, 'md, 'cs) state" where
  "read_and_decide m videoFilepath ls =
     (case ls of (lib, s) \<Rightarrow>
      (case metadataReader_Read m videoFilepath (world s) of ((fMetadata, err), w1) \<Rightarrow>
        let s1 = called (Ev_Read videoFilepath) w1 s;
            s2 = (case err of
                    Some e \<Rightarrow>
                      log Error ''Skipping %v because of error: %v''
                        [ArgString videoFilepath, ArgError e] s1
                  | None \<Rightarrow> s1)
        in (case commandDecider_Decide m fMetadata (CommandDeciderSettings lib) (world s2) of
              ((commandSlice, err'), w2) \<Rightarrow>
                let s3 = called (Ev_Decide fMetadata (CommandDeciderSettings lib)) w2 s2
                in (case err' of
                      Some e \<Rightarrow>
                        (lib, log Debug ''Skipping %v because CommandDecider returned error: %v''
                                [ArgString videoFilepath, ArgError e] s3)
                    | None \<Rightarrow> enqueue m videoFilepath fMetadata commandSlice (lib, s3)))))"

text \<open>
  Lines 96 to 117, the body of the loop over the discovered paths: the first mask the
  path contains skips it; then the dispatch check, whose error skips the path; then the
  path is skipped when it is dispatched or already in the queue.
\<close>

definition scan_path ::
  "('w, 'md::zero, 'cs) Manager \<Rightarrow> string \<Rightarrow>
   ('md, 'cs) Library \<times> ('w, 'md, 'cs) state \<Rightarrow> ('md, 'cs) Library \<times> ('w, 'md, 'cs) state" where
  "scan_path m videoFilepath ls =
     (case ls of (lib, s) \<Rightarrow>
      (case find (\<lambda>v. strings_Contains videoFilepath v) (PathMasks lib) of
         Some v \<Rightarrow>
           (lib, log Debug ''%v skipped because of a mask (%v)''
                   [ArgString videoFilepath, ArgString v] s)
       | None \<Rightarrow>
          (case ds_IsPathDispatched m videoFilepath (world s) of ((pathDispatched, err), w1) \<Rightarrow>
            let s1 = called (Ev_IsPathDispatched videoFilepath (pathDispatched, err)) w1 s
            in (case err of
                  Some e \<Rightarrow> (lib, log Error (message e) [] s1)
                | None \<Rightarrow>
                    if pathDispatched \<or>
                       InQueuePath (Queue lib)
                         \<lparr>UUID = [], Path = videoFilepath, Command = [], Metadata = 0\<rparr>
                    then (lib, s1)
                    else read_and_decide m videoFilepath (lib, s1)))))"

fun scan_paths ::
  "('w, 'md::zero, 'cs) Manager \<Rightarrow> string list \<Rightarrow>
   ('md, 'cs) Library \<times> ('w, 'md, 'cs) state \<Rightarrow> ('md, 'cs) Library \<times> ('w, 'md, 'cs) state" where
  "scan_paths m [] ls = ls"
| "scan_paths m (videoFilepath # rest) ls = scan_paths m rest (scan_path m videoFilepath ls)"

text \<open>
  Lines 84 to 144. The worker runs on its own copy of the library and returns it with the
  state. The deferred function runs on every way out of the body and sets the
  worker-completed flag of the library. The wait group only counts goroutines and is left
  out.
\<close>

definition updateLibraryQueue ::
  "('w, 'md::zero, 'cs) Manager \<Rightarrow> ('md, 'cs) Library \<Rightarrow> ('w, 'md, 'cs) state \<Rightarrow>
   ('md, 'cs) Library \<times> ('w, 'md, 'cs) state" where
  "updateLibraryQueue m lib s =
     (case (case videoFileser_VideoFiles m (Folder lib) (world s) of
              ((discoveredVideos, err), w1) \<Rightarrow>
                let s1 = called (Ev_VideoFiles (Folder lib)) w1 s
                in (case err of
                      Some e \<Rightarrow> (lib, log Error (message e) [] s1)
                    | None \<Rightarrow> scan_paths m discoveredVideos (lib, s1)))
      of (lib', s') \<Rightarrow>
        (lib', s'\<lparr>workerCompletedMap := (workerCompletedMap s')(ID lib' \<mapsto> True)\<rparr>))"

section \<open>The scheduler loop: \<^verbatim>\<open>Start\<close>\<close>

text \<open>
  Lines 58 to 68: the last-checked time and the worker-completed flag of a library are
  looked up; a missing entry is written first, the epoch and true.
\<close>

definition lookup_lastChecked ::
  "int \<Rightarrow> ('w, 'md, 'cs) state \<Rightarrow> time \<times> ('w, 'md, 'cs) state" where
  "lookup_lastChecked i s =
     (case lastCheckedTimes s i of
        Some t \<Rightarrow> (t, s)
      | None \<Rightarrow> (time_Unix00, s\<lparr>lastCheckedTimes := (lastCheckedTimes s)(i \<mapsto> time_Unix00)\<rparr>))"

definition lookup_workerCompleted ::
  "int \<Rightarrow> ('w, 'md, 'cs) state \<Rightarrow> bool \<times> ('w, 'md, 'cs) state" where
  "lookup_workerCompleted i s =
     (case workerCompletedMap s i of
        Some b \<Rightarrow> (b, s)
      | None \<Rightarrow> (True, s\<lparr>workerCompletedMap := (workerCompletedMap s)(i \<mapsto> True)\<rparr>))"

text \<open>
  Lines 57 to 78, the body of the loop over the fetched libraries. \<^verbatim>\<open>time.Since(t)\<close> is
  \<^verbatim>\<open>time.Now().Sub(t)\<close>; the clock is read again for the new last-checked time. The
  \<^verbatim>\<open>go\<close> statement adds the library (the copy the worker gets) to the launched workers.
\<close>

definition schedule_library ::
  "('w, 'md, 'cs) Manager \<Rightarrow> ('md, 'cs) Library \<Rightarrow>
   ('w, 'md, 'cs) state \<times> ('md, 'cs) Library list \<Rightarrow>
   ('w, 'md, 'cs) state \<times> ('md, 'cs) Library list" where
  "schedule_library m lib sl =
     (case sl of (s, launched) \<Rightarrow>
      (case lookup_lastChecked (ID lib) s of (t, s1) \<Rightarrow>
       (case lookup_workerCompleted (ID lib) s1 of (previousWorkerFinished, s2) \<Rightarrow>
        (case time_Now m (world s2) of (now, w1) \<Rightarrow>
          let s3 = s2\<lparr>world := w1\<rparr>
          in if time_Sub now t > FsCheckInterval lib \<and> previousWorkerFinished
             then
               let s4 = log Debug ''Initiating library (ID: %v) update'' [ArgInt (ID lib)] s3
               in (case time_Now m (world s4) of (now', w2) \<Rightarrow>
                     (s4\<lparr>lastCheckedTimes := (lastCheckedTimes s4)(ID lib \<mapsto> now'),
                         workerCompletedMap := (workerCompletedMap s4)(ID lib \<mapsto> False),
                         world := w2\<rparr>,
                      launched @ [lib]))
             else (s3, launched)))))"

text \<open>
  Lines 49 to 78, one pass of the scheduler's endless loop, from the fetch of the libraries
  to the end of the loop over them; it returns the workers it launched. The context check
  before a pass and the sleep after it are left out.
\<close>

definition Start_tick ::
  "('w, 'md, 'cs) Manager \<Rightarrow> ('w, 'md, 'cs) state \<Rightarrow>
   ('w, 'md, 'cs) state \<times> ('md, 'cs) Library list" where
  "Start_tick m s =
     (case ds_Libraries m (world s) of ((allLibraries, err), w1) \<Rightarrow>
       let s1 = called Ev_Libraries w1 s
       in (case err of
             Some e \<Rightarrow> (log Error ''%v'' [ArgError e] s1, [])
           | None \<Rightarrow> foldl (\<lambda>sl lib. schedule_library m lib sl) (s1, []) allLibraries))"

section \<open>The job dispatch operations\<close>

text \<open>
  Lines 171 to 181 and 185 to 188: both methods log that they are not implemented;
  \<^verbatim>\<open>PopNewJob\<close> returns the zero Job, \<^verbatim>\<open>UpdateLibrarySettings\<close> returns nothing.
\<close>

definition PopNewJob ::
  "('w, 'md::zero, 'cs) Manager \<Rightarrow> ('w, 'md, 'cs) state \<Rightarrow> 'md Job \<times> ('w, 'md, 'cs) state" where
  "PopNewJob m s =
     (\<lparr>UUID = [], Path = [], Command = [], Metadata = 0\<rparr>, log Critical ''Not implemented'' [] s)"

definition UpdateLibrarySettings ::
  "('w, 'md, 'cs) Manager \<Rightarrow> (int \<rightharpoonup> ('md, 'cs) Library) \<Rightarrow> ('w, 'md, 'cs) state \<Rightarrow>
   ('w, 'md, 'cs) state" where
  "UpdateLibrarySettings m libs s = log Critical ''Not implemented'' [] s"

text \<open>
  The spec's words for the two operations, to compare the methods with. The job
  \<^verbatim>\<open>PopNewJob\<close> is required to return: the libraries sorted by priority, descending, ties
  by ID ascending; the first job in that order, each queue read from its front.
\<close>

definition spec_PopNewJob :: "('md, 'cs) Library list \<Rightarrow> 'md Job option" where
  "spec_PopNewJob libs =
     (case concat (map Queue (sort_key (\<lambda>l. (- Priority l, ID l)) libs)) of
        [] \<Rightarrow> None
      | j # _ \<Rightarrow> Some j)"

text \<open>
  The libraries \<^verbatim>\<open>UpdateLibrarySettings\<close> is required to leave: every field of a library
  whose ID is a key of the map replaced, but for its ID and its Queue.
\<close>

definition spec_UpdateLibrarySettings ::
  "(int \<rightharpoonup> ('md, 'cs) Library) \<Rightarrow> ('md, 'cs) Library list \<Rightarrow> ('md, 'cs) Library list" where
  "spec_UpdateLibrarySettings libs stored =
     map (\<lambda>l. case libs (ID l) of
                 None \<Rightarrow> l
               | Some new \<Rightarrow> new\<lparr>ID := ID l, Queue := Queue l\<rparr>) stored"

section \<open>Runs of the scheduler and of its workers\<close>

text \<open>
  The scheduler loop and the workers it launched run side by side. A run is a list of
  steps: a pass of the scheduler loop, which adds the workers it launches to the pending
  ones, or the run of the pending worker at a position, from its start to its end (a
  position with no pending worker does nothing). A worker runs on the copy of the library
  it was launched with, however old.
\<close>

datatype step = Tick | Run nat

fun do_step ::
  "('w, 'md::zero, 'cs) Manager \<Rightarrow> step \<Rightarrow>
   ('w, 'md, 'cs) state \<times> ('md, 'cs) Library list \<Rightarrow>
   ('w, 'md, 'cs) state \<times> ('md, 'cs) Library list" where
  "do_step m Tick (s, pending) =
     (case Start_tick m s of (s1, launched) \<Rightarrow> (s1, pending @ launched))"
| "do_step m (Run k) (s, pending) =
     (if k < length pending
      then (snd (updateLibraryQueue m (pending ! k) s), take k pending @ drop (Suc k) pending)
      else (s, pending))"

definition run_steps ::
  "('w, 'md::zero, 'cs) Manager \<Rightarrow> step list \<Rightarrow>
   ('w, 'md, 'cs) state \<times> ('md, 'cs) Library list \<Rightarrow>
   ('w, 'md, 'cs) state \<times> ('md, 'cs) Library list" where
  "run_steps m steps sp = foldl (\<lambda>sp' st. do_step m st sp') sp steps"

text \<open>
  The states the manager reaches from \<^verbatim>\<open>NewManager\<close>: by a step of the scheduler's loop over
  the libraries, by a whole pass of the scheduler loop, or by a run of a worker.
\<close>

inductive reachable :: "('w, 'md::zero, 'cs) Manager \<Rightarrow> ('w, 'md, 'cs) state \<Rightarrow> bool"
  for m :: "('w, 'md::zero, 'cs) Manager" where
  reachable_new: "reachable m (NewManager w)"
| reachable_schedule: "reachable m s \<Longrightarrow> reachable m (fst (schedule_library m lib (s, launched)))"
| reachable_tick: "reachable m s \<Longrightarrow> reachable m (fst (Start_tick m s))"
| reachable_worker: "reachable m s \<Longrightarrow> reachable m (snd (updateLibraryQueue m lib s))"

text \<open>
  The last-checked time and the worker-completed flag the scheduler works with: the entry
  of the map, or the default it writes for a missing one.
\<close>

definition lastChecked :: "('w, 'md, 'cs) state \<Rightarrow> int \<Rightarrow> time" where
  "lastChecked s i = (case lastCheckedTimes s i of Some t \<Rightarrow> t | None \<Rightarrow> time_Unix00)"

definition workerCompleted :: "('w, 'md, 'cs) state \<Rightarrow> int \<Rightarrow> bool" where
  "workerCompleted s i = (case workerCompletedMap s i of Some b \<Rightarrow> b | None \<Rightarrow> True)"

text \<open>
  Every push in a trace follows a dispatch check of its own: the last dispatch check
  before the push was for the path of the pushed job and answered "not dispatched"
  with no error, and no other push stands between the two. The first argument is the path
  the last check cleared, if it cleared one that has not been pushed yet.
\<close>

fun dispatch_respected :: "string option \<Rightarrow> ('md, 'cs) event list \<Rightarrow> bool" where
  "dispatch_respected c [] = True"
| "dispatch_respected c (Ev_IsPathDispatched p r # evs) =
     dispatch_respected (if r = (False, None) then Some p else None) evs"
| "dispatch_respected c (Ev_Push j # evs) = (c = Some (Path j) \<and> dispatch_respected None evs)"
| "dispatch_respected c (ev # evs) = dispatch_respected c evs"

text \<open>No queue of the given libraries holds two jobs with the same path.\<close>

definition queues_distinct :: "('md, 'cs) Library set \<Rightarrow> bool" where
  "queues_distinct libs = (\<forall>l\<in>libs. distinct (map Path (Queue l)))"

text \<open>
  Modelled from the spec: the Data Store persists the libraries and their queues. Whatever
  the world is, \<open>stored\<close> reads the libraries the store holds there; the libraries
  \<^verbatim>\<open>Libraries()\<close> returns are among them, \<^verbatim>\<open>SaveLibrary\<close> adds at most the library it is
  given (also when it fails), and no other collaborator adds any.
\<close>

definition store_keeps ::
  "('w, 'md, 'cs) Manager \<Rightarrow> ('w \<Rightarrow> ('md, 'cs) Library set) \<Rightarrow> bool" where
  "store_keeps m stored \<longleftrightarrow>
     (\<forall>w. set (fst (fst (ds_Libraries m w))) \<subseteq> stored w \<and>
          stored (snd (ds_Libraries m w)) \<subseteq> stored w) \<and>
     (\<forall>lib w. stored (snd (ds_SaveLibrary m lib w)) \<subseteq> insert lib (stored w)) \<and>
     (\<forall>p w. stored (snd (ds_IsPathDispatched m p w)) \<subseteq> stored w) \<and>
     (\<forall>p w. stored (snd (metadataReader_Read m p w)) \<subseteq> stored w) \<and>
     (\<forall>md cs w. stored (snd (commandDecider_Decide m md cs w)) \<subseteq> stored w) \<and>
     (\<forall>dir w. stored (snd (videoFileser_VideoFiles m dir w)) \<subseteq> stored w) \<and>
     (\<forall>w. stored (snd (uuid_NewString m w)) \<subseteq> stored w) \<and>
     (\<forall>w. stored (snd (time_Now m w)) \<subseteq> stored w)"

text \<open>
  What the steps of a run keep, for a reading \<open>stored\<close> of the store: no library the store holds
  and no library that was saved has a path twice in its queue, and every push followed a
  dispatch check of its own.
\<close>

definition dedup_invariant ::
  "('w \<Rightarrow> ('md, 'cs) Library set) \<Rightarrow> ('w, 'md, 'cs) state \<Rightarrow> bool" where
  "dedup_invariant stored s \<longleftrightarrow>
     queues_distinct (stored (world s)) \<and>
     queues_distinct {l. Ev_SaveLibrary l \<in> set (trace s)} \<and>
     dispatch_respected None (trace s)"

section \<open>A small installation\<close>

text \<open>
  Collaborators to run the manager with: a store that holds a list of libraries and a list
  of dispatched paths and fails the dispatch check of one path, a reader that fails on
  one file, a decider that fails without settings, a directory of five discovered paths
  (one of them twice), and a clock that moves a millisecond at every reading.
\<close>

record ex_world =
  store :: "(nat, string) Library list"
  sent :: "string list"
  clock :: time
  issued :: nat

definition ex_manager :: "(ex_world, nat, string) Manager" where
  "ex_manager =
     \<lparr>ds_Libraries = (\<lambda>w. ((store w, None), w)),
      ds_IsPathDispatched = (\<lambda>p w.
        if p = ''/media/locked.mkv'' then ((False, Some (Err ''database is locked'')), w)
        else ((p \<in> set (sent w), None), w)),
      ds_SaveLibrary = (\<lambda>lib w.
        (None, w\<lparr>store := map (\<lambda>l. if ID l = ID lib then lib else l) (store w)\<rparr>)),
      metadataReader_Read = (\<lambda>p w.
        if p = ''/media/broken.mkv'' then ((0, Some (Err ''not a video'')), w)
        else ((length p, None), w)),
      commandDecider_Decide = (\<lambda>md cs w.
        if cs = [] then (([], Some (Err ''no settings'')), w)
        else (([''ffmpeg'', ''-c:v'', cs], None), w)),
      videoFileser_VideoFiles = (\<lambda>dir w.
        if dir = ''/media''
        then (([''/media/a.mkv'', ''/media/tmp/b.mkv'', ''/media/locked.mkv'',
                ''/media/broken.mkv'', ''/media/a.mkv''], None), w)
        else (([], Some (Err ''no such directory'')), w)),
      uuid_NewString = (\<lambda>w. (replicate (Suc (issued w)) CHR ''u'', w\<lparr>issued := Suc (issued w)\<rparr>)),
      time_Now = (\<lambda>w. (clock w, w\<lparr>clock := clock w + 1000000\<rparr>))\<rparr>"

text \<open>
  A library checked every ten seconds, with the two masks of the spec's example; and a
  world whose clock stands at the first of November 2026.
\<close>

definition ex_lib :: "(nat, string) Library" where
  "ex_lib =
     \<lparr>ID = 1, Folder = ''/media'', Priority = 5, FsCheckInterval = 10000000000, Queue = [],
      PathMasks = [''/tmp/'', ''_partial''], CommandDeciderSettings = ''hevc''\<rparr>"

definition ex_world0 :: ex_world where
  "ex_world0 = \<lparr>store = [ex_lib], sent = [''/media/sent.mkv''], clock = 1793491200000000000,
     issued = 0\<rparr>"

text \<open>A job for a path, as a worker would have queued it.\<close>

definition ex_job :: "string \<Rightarrow> nat Job" where
  "ex_job p = \<lparr>UUID = ''u'', Path = p, Command = [''ffmpeg'', ''-c:v'', ''hevc''], Metadata = length p\<rparr>"

text \<open>The manager's state in that world, as \<^verbatim>\<open>NewManager\<close> leaves it.\<close>

definition ex_state :: "(ex_world, nat, string) state" where
  "ex_state = NewManager ex_world0"

section \<open>Facts about the collaborating functions\<close>

lemma strings_Contains_iff: "strings_Contains s substr \<longleftrightarrow> (\<exists>a b. s = a @ substr @ b)"
proof -
  have "strings_Contains s substr \<longleftrightarrow> sublist substr s"
    by (induction s) (simp_all add: sublist_Cons_right)
  then show ?thesis
    by (simp add: sublist_def)
qed

lemma log_simps [simp]:
  "logged (log lv fmt args s) = logged s @ [(lv, fmt, args)]"
  "trace (log lv fmt args s) = trace s"
  "world (log lv fmt args s) = world s"
  "lastCheckedTimes (log lv fmt args s) = lastCheckedTimes s"
  "workerCompletedMap (log lv fmt args s) = workerCompletedMap s"
  by (simp_all add: log_def)

lemma called_simps [simp]:
  "logged (called ev w s) = logged s"
  "trace (called ev w s) = trace s @ [ev]"
  "world (called ev w s) = w"
  "lastCheckedTimes (called ev w s) = lastCheckedTimes s"
  "workerCompletedMap (called ev w s) = workerCompletedMap s"
  by (simp_all add: called_def)

lemma find_mask_None:
  "find (\<lambda>v. strings_Contains p v) masks = None \<longleftrightarrow> \<not> (\<exists>v\<in>set masks. \<exists>a b. p = a @ v @ b)"
  by (auto simp: find_None_iff strings_Contains_iff)

lemma find_mask_Some:
  "find (\<lambda>v. strings_Contains p v) masks = Some v \<Longrightarrow> v \<in> set masks \<and> (\<exists>a b. p = a @ v @ b)"
  by (auto simp: find_Some_iff strings_Contains_iff)

lemma InQueuePath_iff: "InQueuePath q item \<longleftrightarrow> Path item \<in> Path ` set q"
  unfolding InQueuePath_def list_ex_iff image_iff by metis

text \<open>The branches of the loop body.\<close>

lemma enqueue_eq:
  assumes "uuid_NewString m (world s) = (u, w1)"
    and "ds_SaveLibrary m (lib\<lparr>Queue := Queue lib @ [\<lparr>UUID = u, Path = p, Command = cmd, Metadata = md\<rparr>]\<rparr>) w1 = (err, w2)"
  shows "enqueue m p md cmd (lib, s) =
    (lib\<lparr>Queue := Queue lib @ [\<lparr>UUID = u, Path = p, Command = cmd, Metadata = md\<rparr>]\<rparr>,
     called (Ev_SaveLibrary (lib\<lparr>Queue := Queue lib @ [\<lparr>UUID = u, Path = p, Command = cmd, Metadata = md\<rparr>]\<rparr>)) w2
       (log Info ''Added %v to Library %v's queue'' [ArgString p, ArgInt (ID lib)]
         (called (Ev_Push \<lparr>UUID = u, Path = p, Command = cmd, Metadata = md\<rparr>) w1 s)))"
  using assms by (simp add: enqueue_def Push_def Let_def)

lemma scan_path_masked:
  assumes "find (\<lambda>v. strings_Contains p v) (PathMasks lib) = Some v"
  shows "scan_path m p (lib, s) = (lib, log Debug ''%v skipped because of a mask (%v)'' [ArgString p, ArgString v] s)"
  using assms by (simp add: scan_path_def)

lemma scan_path_dispatch_error:
  assumes "find (\<lambda>v. strings_Contains p v) (PathMasks lib) = None"
    and "ds_IsPathDispatched m p (world s) = ((b, Some e), w1)"
  shows "scan_path m p (lib, s) =
    (lib, log Error (message e) [] (called (Ev_IsPathDispatched p (b, Some e)) w1 s))"
  using assms by (simp add: scan_path_def)

lemma scan_path_filtered:
  assumes "find (\<lambda>v. strings_Contains p v) (PathMasks lib) = None"
    and "ds_IsPathDispatched m p (world s) = ((b, None), w1)"
    and "b \<or> p \<in> Path ` set (Queue lib)"
  shows "scan_path m p (lib, s) = (lib, called (Ev_IsPathDispatched p (b, None)) w1 s)"
  using assms by (auto simp add: scan_path_def InQueuePath_iff)

lemma scan_path_proceeds:
  assumes "find (\<lambda>v. strings_Contains p v) (PathMasks lib) = None"
    and "ds_IsPathDispatched m p (world s) = ((False, None), w1)"
    and "p \<notin> Path ` set (Queue lib)"
  shows "scan_path m p (lib, s) =
    read_and_decide m p (lib, called (Ev_IsPathDispatched p (False, None)) w1 s)"
  using assms by (auto simp add: scan_path_def InQueuePath_iff)

lemma read_and_decide_error:
  assumes "metadataReader_Read m p (world s) = ((md, rerr), w1)"
    and "commandDecider_Decide m md (CommandDeciderSettings lib) w1 = ((cmd, Some e), w2)"
  shows "read_and_decide m p (lib, s) =
    (lib, log Debug ''Skipping %v because CommandDecider returned error: %v'' [ArgString p, ArgError e]
       (called (Ev_Decide md (CommandDeciderSettings lib)) w2
         ((case rerr of Some e' \<Rightarrow> log Error ''Skipping %v because of error: %v'' [ArgString p, ArgError e'] | None \<Rightarrow> id)
           (called (Ev_Read p) w1 s))))"
  using assms by (simp add: read_and_decide_def split: option.splits)

lemma read_and_decide_ok:
  assumes "metadataReader_Read m p (world s) = ((md, rerr), w1)"
    and "commandDecider_Decide m md (CommandDeciderSettings lib) w1 = ((cmd, None), w2)"
  shows "read_and_decide m p (lib, s) =
    enqueue m p md cmd (lib, 
       (called (Ev_Decide md (CommandDeciderSettings lib)) w2
         ((case rerr of Some e' \<Rightarrow> log Error ''Skipping %v because of error: %v'' [ArgString p, ArgError e'] | None \<Rightarrow> id)
           (called (Ev_Read p) w1 s))))"
  using assms by (simp add: read_and_decide_def split: option.splits)

text \<open>What the loop body leaves alone.\<close>

lemma enqueue_frame:
  "ID (fst (enqueue m p md cmd (lib, s))) = ID lib"
  "lastCheckedTimes (snd (enqueue m p md cmd (lib, s))) = lastCheckedTimes s"
  "workerCompletedMap (snd (enqueue m p md cmd (lib, s))) = workerCompletedMap s"
  by (simp_all add: enqueue_def Let_def split: prod.splits)

lemma read_and_decide_frame:
  "ID (fst (read_and_decide m p (lib, s))) = ID lib"
  "lastCheckedTimes (snd (read_and_decide m p (lib, s))) = lastCheckedTimes s"
  "workerCompletedMap (snd (read_and_decide m p (lib, s))) = workerCompletedMap s"
  by (simp_all add: read_and_decide_def Let_def enqueue_frame split: prod.splits option.splits)

lemma scan_path_frame:
  "ID (fst (scan_path m p (lib, s))) = ID lib"
  "lastCheckedTimes (snd (scan_path m p (lib, s))) = lastCheckedTimes s"
  "workerCompletedMap (snd (scan_path m p (lib, s))) = workerCompletedMap s"
  by (simp_all add: scan_path_def Let_def read_and_decide_frame split: prod.splits option.splits)

lemma scan_paths_frame:
  "ID (fst (scan_paths m ps ls)) = ID (fst ls) \<and>
   lastCheckedTimes (snd (scan_paths m ps ls)) = lastCheckedTimes (snd ls) \<and>
   workerCompletedMap (snd (scan_paths m ps ls)) = workerCompletedMap (snd ls)"
proof (induction ps arbitrary: ls)
  case Nil
  show ?case by simp
next
  case (Cons p ps)
  obtain lib s where ls: "ls = (lib, s)" by (cases ls)
  show ?case
    using Cons.IH [of "scan_path m p ls"] by (simp add: ls scan_path_frame)
qed

lemma updateLibraryQueue_eq:
  assumes "videoFileser_VideoFiles m (Folder lib) (world s) = ((ps, err), w1)"
  shows "updateLibraryQueue m lib s =
    (let r = (case err of
                Some e \<Rightarrow> (lib, log Error (message e) [] (called (Ev_VideoFiles (Folder lib)) w1 s))
              | None \<Rightarrow> scan_paths m ps (lib, called (Ev_VideoFiles (Folder lib)) w1 s))
     in (fst r, (snd r)\<lparr>workerCompletedMap := (workerCompletedMap (snd r))(ID (fst r) \<mapsto> True)\<rparr>))"
  using assms by (simp add: updateLibraryQueue_def Let_def split: prod.splits option.splits)

lemma updateLibraryQueue_frame:
  "ID (fst (updateLibraryQueue m lib s)) = ID lib"
  "lastCheckedTimes (snd (updateLibraryQueue m lib s)) = lastCheckedTimes s"
  "workerCompletedMap (snd (updateLibraryQueue m lib s)) = (workerCompletedMap s)(ID lib \<mapsto> True)"
proof -
  obtain ps err w1 where v: "videoFileser_VideoFiles m (Folder lib) (world s) = ((ps, err), w1)"
    by (metis surj_pair)
  note f = scan_paths_frame [of m ps "(lib, called (Ev_VideoFiles (Folder lib)) w1 s)"]
  show "ID (fst (updateLibraryQueue m lib s)) = ID lib"
    using f by (cases err) (simp_all add: updateLibraryQueue_eq [OF v] Let_def)
  show "lastCheckedTimes (snd (updateLibraryQueue m lib s)) = lastCheckedTimes s"
    using f by (cases err) (simp_all add: updateLibraryQueue_eq [OF v] Let_def)
  show "workerCompletedMap (snd (updateLibraryQueue m lib s)) = (workerCompletedMap s)(ID lib \<mapsto> True)"
    using f by (cases err) (simp_all add: updateLibraryQueue_eq [OF v] Let_def)
qed

text \<open>The trace only grows, and what is added respects the dispatch check.\<close>

lemma dispatch_respected_append:
  "dispatch_respected c xs \<Longrightarrow> (\<forall>c'. dispatch_respected c' ys) \<Longrightarrow> dispatch_respected c (xs @ ys)"
  by (induction c xs rule: dispatch_respected.induct) simp_all

lemma enqueue_trace:
  "\<exists>evs. trace (snd (enqueue m p md cmd (lib, s))) = trace s @ evs \<and>
     dispatch_respected (Some p) evs"
  by (simp add: enqueue_def Let_def split: prod.splits)

lemma read_and_decide_trace:
  "\<exists>evs. trace (snd (read_and_decide m p (lib, s))) = trace s @ evs \<and>
     dispatch_respected (Some p) evs"
proof -
  obtain md rerr w1 where r: "metadataReader_Read m p (world s) = ((md, rerr), w1)"
    by (metis surj_pair)
  obtain cmd derr w2 where d: "commandDecider_Decide m md (CommandDeciderSettings lib) w1 = ((cmd, derr), w2)"
    by (metis surj_pair)
  show ?thesis
  proof (cases derr)
    case (Some e)
    then show ?thesis
      using r d by (cases rerr) (simp_all add: read_and_decide_error)
  next
    case None
    let ?s = "called (Ev_Decide md (CommandDeciderSettings lib)) w2
         ((case rerr of Some e' \<Rightarrow> log Error ''Skipping %v because of error: %v'' [ArgString p, ArgError e'] | None \<Rightarrow> id)
           (called (Ev_Read p) w1 s))"
    obtain evs where "trace (snd (enqueue m p md cmd (lib, ?s))) = trace ?s @ evs"
      and "dispatch_respected (Some p) evs"
      using enqueue_trace [of m p md cmd lib ?s] by blast
    then show ?thesis
      using r d None by (cases rerr) (simp_all add: read_and_decide_ok)
  qed
qed

lemma scan_path_trace:
  "\<exists>evs. trace (snd (scan_path m p (lib, s))) = trace s @ evs \<and> (\<forall>c. dispatch_respected c evs)"
proof (cases "find (\<lambda>v. strings_Contains p v) (PathMasks lib)")
  case (Some v)
  then show ?thesis by (simp add: scan_path_masked)
next
  case None
  obtain b err w1 where d: "ds_IsPathDispatched m p (world s) = ((b, err), w1)"
    by (metis surj_pair)
  show ?thesis
  proof (cases "err = None \<and> \<not> b \<and> p \<notin> Path ` set (Queue lib)")
    case True
    let ?s = "called (Ev_IsPathDispatched p (False, None)) w1 s"
    obtain evs where "trace (snd (read_and_decide m p (lib, ?s))) = trace ?s @ evs"
      and "dispatch_respected (Some p) evs"
      using read_and_decide_trace [of m p lib ?s] by blast
    then show ?thesis
      using None d True by (simp add: scan_path_proceeds)
  next
    case False
    then show ?thesis
      using None d by (cases err) (auto simp: scan_path_dispatch_error scan_path_filtered)
  qed
qed

lemma scan_paths_trace:
  "\<exists>evs. trace (snd (scan_paths m ps ls)) = trace (snd ls) @ evs \<and> (\<forall>c. dispatch_respected c evs)"
proof (induction ps arbitrary: ls)
  case Nil
  show ?case by simp
next
  case (Cons p ps)
  obtain lib s where ls: "ls = (lib, s)" by (cases ls)
  obtain evs1 where 1: "trace (snd (scan_path m p (lib, s))) = trace s @ evs1"
    "\<forall>c. dispatch_respected c evs1"
    using scan_path_trace [of m p lib s] by blast
  obtain evs2 where 2: "trace (snd (scan_paths m ps (scan_path m p (lib, s)))) =
      trace (snd (scan_path m p (lib, s))) @ evs2" "\<forall>c. dispatch_respected c evs2"
    using Cons.IH [of "scan_path m p (lib, s)"] by blast
  have "\<forall>c. dispatch_respected c (evs1 @ evs2)"
    using 1 2 by (simp add: dispatch_respected_append)
  then show ?case
    using 1 2 by (simp add: ls)
qed

lemma updateLibraryQueue_trace:
  "\<exists>evs. trace (snd (updateLibraryQueue m lib s)) = trace s @ evs \<and> (\<forall>c. dispatch_respected c evs)"
proof -
  obtain ps err w1 where v: "videoFileser_VideoFiles m (Folder lib) (world s) = ((ps, err), w1)"
    by (metis surj_pair)
  let ?s = "called (Ev_VideoFiles (Folder lib)) w1 s"
  obtain evs where e: "trace (snd (scan_paths m ps (lib, ?s))) = trace ?s @ evs"
    "\<forall>c. dispatch_respected c evs"
    using scan_paths_trace [of m ps "(lib, ?s)"] by auto
  show ?thesis
    using e by (cases err) (simp_all add: updateLibraryQueue_eq [OF v] Let_def)
qed

text \<open>Distinct paths in the queues the store holds and in the libraries saved.\<close>

lemma queues_distinct_mono: "queues_distinct A \<Longrightarrow> B \<subseteq> A \<Longrightarrow> queues_distinct B"
  by (auto simp: queues_distinct_def)

lemma queues_distinct_Un: "queues_distinct (A \<union> B) \<longleftrightarrow> queues_distinct A \<and> queues_distinct B"
  by (auto simp: queues_distinct_def)

lemma queues_distinct_insert:
  "queues_distinct (insert l A) \<longleftrightarrow> distinct (map Path (Queue l)) \<and> queues_distinct A"
  by (auto simp: queues_distinct_def)

lemma store_keepsD:
  assumes "store_keeps m stored" and "queues_distinct (stored w)"
  shows "ds_Libraries m w = ((ls, e1), w1) \<Longrightarrow> queues_distinct (set ls) \<and> queues_distinct (stored w1)"
    and "ds_SaveLibrary m lib w = (e2, w2) \<Longrightarrow> distinct (map Path (Queue lib)) \<Longrightarrow> queues_distinct (stored w2)"
    and "ds_IsPathDispatched m p w = (r3, w3) \<Longrightarrow> queues_distinct (stored w3)"
    and "metadataReader_Read m p w = (r4, w4) \<Longrightarrow> queues_distinct (stored w4)"
    and "commandDecider_Decide m md cs w = (r5, w5) \<Longrightarrow> queues_distinct (stored w5)"
    and "videoFileser_VideoFiles m dir w = (r6, w6) \<Longrightarrow> queues_distinct (stored w6)"
    and "uuid_NewString m w = (r7, w7) \<Longrightarrow> queues_distinct (stored w7)"
    and "time_Now m w = (r8, w8) \<Longrightarrow> queues_distinct (stored w8)"
proof -
  show "ds_Libraries m w = ((ls, e1), w1) \<Longrightarrow> queues_distinct (set ls) \<and> queues_distinct (stored w1)"
    using assms unfolding store_keeps_def
    by (metis fst_conv snd_conv queues_distinct_mono)
  show "ds_SaveLibrary m lib w = (e2, w2) \<Longrightarrow> distinct (map Path (Queue lib)) \<Longrightarrow> queues_distinct (stored w2)"
    using assms unfolding store_keeps_def
    by (metis snd_conv queues_distinct_mono queues_distinct_insert)
  show "ds_IsPathDispatched m p w = (r3, w3) \<Longrightarrow> queues_distinct (stored w3)"
    using assms unfolding store_keeps_def by (metis snd_conv queues_distinct_mono)
  show "metadataReader_Read m p w = (r4, w4) \<Longrightarrow> queues_distinct (stored w4)"
    using assms unfolding store_keeps_def by (metis snd_conv queues_distinct_mono)
  show "commandDecider_Decide m md cs w = (r5, w5) \<Longrightarrow> queues_distinct (stored w5)"
    using assms unfolding store_keeps_def by (metis snd_conv queues_distinct_mono)
  show "videoFileser_VideoFiles m dir w = (r6, w6) \<Longrightarrow> queues_distinct (stored w6)"
    using assms unfolding store_keeps_def by (metis snd_conv queues_distinct_mono)
  show "uuid_NewString m w = (r7, w7) \<Longrightarrow> queues_distinct (stored w7)"
    using assms unfolding store_keeps_def by (metis snd_conv queues_distinct_mono)
  show "time_Now m w = (r8, w8) \<Longrightarrow> queues_distinct (stored w8)"
    using assms unfolding store_keeps_def by (metis snd_conv queues_distinct_mono)
qed

lemma enqueue_safe:
  assumes k: "store_keeps m stored"
    and d: "distinct (map Path (Queue lib))" and n: "p \<notin> Path ` set (Queue lib)"
    and q: "queues_distinct (stored (world s))"
    and t: "queues_distinct {l. Ev_SaveLibrary l \<in> set (trace s)}"
  shows "distinct (map Path (Queue (fst (enqueue m p md cmd (lib, s))))) \<and>
         queues_distinct (stored (world (snd (enqueue m p md cmd (lib, s))))) \<and>
         queues_distinct {l. Ev_SaveLibrary l \<in> set (trace (snd (enqueue m p md cmd (lib, s))))}"
proof -
  obtain u w1 where u: "uuid_NewString m (world s) = (u, w1)"
    by (metis surj_pair)
  let ?lib = "lib\<lparr>Queue := Queue lib @ [\<lparr>UUID = u, Path = p, Command = cmd, Metadata = md\<rparr>]\<rparr>"
  obtain err w2 where sv: "ds_SaveLibrary m ?lib w1 = (err, w2)"
    by (metis surj_pair)
  have dl: "distinct (map Path (Queue ?lib))"
    using d n by simp
  have "queues_distinct (stored w1)"
    using store_keepsD(7) [OF k q u] .
  then have "queues_distinct (stored w2)"
    using store_keepsD(2) [OF k _ sv dl] by simp
  moreover have "queues_distinct {l. Ev_SaveLibrary l \<in> set (trace s @ [Ev_Push \<lparr>UUID = u, Path = p, Command = cmd, Metadata = md\<rparr>, Ev_SaveLibrary ?lib])}"
    using t dl by (auto simp: queues_distinct_def)
  ultimately show ?thesis
    using dl by (simp add: enqueue_eq [OF u sv])
qed

lemma read_and_decide_safe:
  assumes k: "store_keeps m stored"
    and d: "distinct (map Path (Queue lib))" and n: "p \<notin> Path ` set (Queue lib)"
    and q: "queues_distinct (stored (world s))"
    and t: "queues_distinct {l. Ev_SaveLibrary l \<in> set (trace s)}"
  shows "distinct (map Path (Queue (fst (read_and_decide m p (lib, s))))) \<and>
         queues_distinct (stored (world (snd (read_and_decide m p (lib, s))))) \<and>
         queues_distinct {l. Ev_SaveLibrary l \<in> set (trace (snd (read_and_decide m p (lib, s))))}"
proof -
  obtain md rerr w1 where r: "metadataReader_Read m p (world s) = ((md, rerr), w1)"
    by (metis surj_pair)
  obtain cmd derr w2 where dc: "commandDecider_Decide m md (CommandDeciderSettings lib) w1 = ((cmd, derr), w2)"
    by (metis surj_pair)
  let ?s = "called (Ev_Decide md (CommandDeciderSettings lib)) w2
         ((case rerr of Some e' \<Rightarrow> log Error ''Skipping %v because of error: %v'' [ArgString p, ArgError e'] | None \<Rightarrow> id)
           (called (Ev_Read p) w1 s))"
  have "queues_distinct (stored w1)"
    using store_keepsD(4) [OF k q r] .
  then have w2: "queues_distinct (stored w2)"
    using store_keepsD(5) [OF k _ dc] by simp
  have tr: "trace ?s = trace s @ [Ev_Read p, Ev_Decide md (CommandDeciderSettings lib)]"
    by (cases rerr) simp_all
  have t2: "queues_distinct {l. Ev_SaveLibrary l \<in> set (trace ?s)}"
    using t unfolding tr by (auto simp: queues_distinct_def)
  have ws: "world ?s = w2"
    by simp
  show ?thesis
  proof (cases derr)
    case (Some e)
    have "read_and_decide m p (lib, s) =
        (lib, log Debug ''Skipping %v because CommandDecider returned error: %v'' [ArgString p, ArgError e] ?s)"
      using read_and_decide_error [OF r] dc Some by simp
    then show ?thesis
      using d w2 t2 by simp
  next
    case None
    have "read_and_decide m p (lib, s) = enqueue m p md cmd (lib, ?s)"
      using read_and_decide_ok [OF r] dc None by simp
    then show ?thesis
      using enqueue_safe [OF k d n, of ?s md cmd] w2 t2 ws by simp
  qed
qed

lemma scan_path_safe:
  assumes k: "store_keeps m stored"
    and d: "distinct (map Path (Queue lib))"
    and q: "queues_distinct (stored (world s))"
    and t: "queues_distinct {l. Ev_SaveLibrary l \<in> set (trace s)}"
  shows "distinct (map Path (Queue (fst (scan_path m p (lib, s))))) \<and>
         queues_distinct (stored (world (snd (scan_path m p (lib, s))))) \<and>
         queues_distinct {l. Ev_SaveLibrary l \<in> set (trace (snd (scan_path m p (lib, s))))}"
proof (cases "find (\<lambda>v. strings_Contains p v) (PathMasks lib)")
  case (Some v)
  then show ?thesis
    using d q t by (simp add: scan_path_masked)
next
  case None
  obtain b err w1 where dp: "ds_IsPathDispatched m p (world s) = ((b, err), w1)"
    by (metis surj_pair)
  let ?s = "called (Ev_IsPathDispatched p (b, err)) w1 s"
  have w1: "queues_distinct (stored (world ?s))"
    using store_keepsD(3) [OF k q dp] by simp
  have t1: "queues_distinct {l. Ev_SaveLibrary l \<in> set (trace ?s)}"
    using t by (auto simp: queues_distinct_def)
  show ?thesis
  proof (cases "err = None \<and> \<not> b \<and> p \<notin> Path ` set (Queue lib)")
    case True
    then have "scan_path m p (lib, s) = read_and_decide m p (lib, ?s)"
      using scan_path_proceeds [OF None, of m s w1] dp by simp
    then show ?thesis
      using read_and_decide_safe [OF k d _ w1 t1, of p] True by simp
  next
    case False
    then have "scan_path m p (lib, s) = (lib, ?s) \<or>
        (\<exists>e. scan_path m p (lib, s) = (lib, log Error (message e) [] ?s))"
      using None dp by (cases err) (auto simp: scan_path_dispatch_error scan_path_filtered)
    then show ?thesis
      using d w1 t1 by auto
  qed
qed

lemma scan_paths_safe:
  assumes k: "store_keeps m stored"
  shows "distinct (map Path (Queue (fst ls))) \<Longrightarrow>
     queues_distinct (stored (world (snd ls))) \<Longrightarrow>
     queues_distinct {l. Ev_SaveLibrary l \<in> set (trace (snd ls))} \<Longrightarrow>
     distinct (map Path (Queue (fst (scan_paths m ps ls)))) \<and>
     queues_distinct (stored (world (snd (scan_paths m ps ls)))) \<and>
     queues_distinct {l. Ev_SaveLibrary l \<in> set (trace (snd (scan_paths m ps ls)))}"
proof (induction ps arbitrary: ls)
  case Nil
  then show ?case by simp
next
  case (Cons p ps)
  obtain lib s where ls: "ls = (lib, s)" by (cases ls)
  have "distinct (map Path (Queue (fst (scan_path m p (lib, s))))) \<and>
         queues_distinct (stored (world (snd (scan_path m p (lib, s))))) \<and>
         queues_distinct {l. Ev_SaveLibrary l \<in> set (trace (snd (scan_path m p (lib, s))))}"
    using scan_path_safe [OF k, of lib s p] Cons.prems by (simp add: ls)
  then show ?case
    using Cons.IH [of "scan_path m p (lib, s)"] by (simp add: ls)
qed

lemma updateLibraryQueue_safe:
  assumes k: "store_keeps m stored"
    and d: "distinct (map Path (Queue lib))"
    and q: "queues_distinct (stored (world s))"
    and t: "queues_distinct {l. Ev_SaveLibrary l \<in> set (trace s)}"
  shows "distinct (map Path (Queue (fst (updateLibraryQueue m lib s)))) \<and>
         queues_distinct (stored (world (snd (updateLibraryQueue m lib s)))) \<and>
         queues_distinct {l. Ev_SaveLibrary l \<in> set (trace (snd (updateLibraryQueue m lib s)))}"
proof -
  obtain ps err w1 where v: "videoFileser_VideoFiles m (Folder lib) (world s) = ((ps, err), w1)"
    by (metis surj_pair)
  let ?s = "called (Ev_VideoFiles (Folder lib)) w1 s"
  have w1: "queues_distinct (stored (world ?s))"
    using store_keepsD(6) [OF k q v] by simp
  have t1: "queues_distinct {l. Ev_SaveLibrary l \<in> set (trace ?s)}"
    using t by (auto simp: queues_distinct_def)
  show ?thesis
  proof (cases err)
    case (Some e)
    then show ?thesis
      using d w1 t1 by (simp add: updateLibraryQueue_eq [OF v] Let_def)
  next
    case None
    then show ?thesis
      using scan_paths_safe [OF k, of "(lib, ?s)" ps] d w1 t1
      by (simp add: updateLibraryQueue_eq [OF v] Let_def)
  qed
qed

section \<open>The scan worker\<close>

text \<open>
  Claim C5. Whatever the collaborators do, a run of the scan worker ends with the
  worker-completed flag of its library set to true: the worker is a total function and the
  deferred assignment is its last step. In particular, when the discovery of the video
  files fails, the worker logs the error, scans nothing and still sets the flag.
\<close>

theorem worker_always_marks_completed:
  "workerCompletedMap (snd (updateLibraryQueue m lib s)) (ID lib) = Some True \<and>
   (\<forall>ps e w1. videoFileser_VideoFiles m (Folder lib) (world s) = ((ps, Some e), w1) \<longrightarrow>
      updateLibraryQueue m lib s =
        (lib, (log Error (message e) [] (called (Ev_VideoFiles (Folder lib)) w1 s))
                \<lparr>workerCompletedMap := (workerCompletedMap s)(ID lib \<mapsto> True)\<rparr>))"
proof (intro conjI allI impI)
  show "workerCompletedMap (snd (updateLibraryQueue m lib s)) (ID lib) = Some True"
    by (simp add: updateLibraryQueue_frame)
next
  fix ps e w1
  assume "videoFileser_VideoFiles m (Folder lib) (world s) = ((ps, Some e), w1)"
  then show "updateLibraryQueue m lib s =
        (lib, (log Error (message e) [] (called (Ev_VideoFiles (Folder lib)) w1 s))
                \<lparr>workerCompletedMap := (workerCompletedMap s)(ID lib \<mapsto> True)\<rparr>)"
    by (simp add: updateLibraryQueue_eq)
qed

theorem worker_always_marks_completed_witness:
  "workerCompletedMap (snd (updateLibraryQueue ex_manager ex_lib (ex_state))) 1 = Some True \<and>
   videoFileser_VideoFiles ex_manager ''/gone'' ex_world0 = (([], Some (Err ''no such directory'')), ex_world0) \<and>
   updateLibraryQueue ex_manager (ex_lib\<lparr>Folder := ''/gone''\<rparr>) (ex_state) =
     (ex_lib\<lparr>Folder := ''/gone''\<rparr>,
      \<lparr>lastCheckedTimes = Map.empty, workerCompletedMap = [1 \<mapsto> True],
       logged = [(Error, ''no such directory'', [])], trace = [Ev_VideoFiles ''/gone''],
       world = ex_world0\<rparr>)"
proof -
  have h: "videoFileser_VideoFiles ex_manager (Folder (ex_lib\<lparr>Folder := ''/gone''\<rparr>))
      (world (ex_state)) = (([], Some (Err ''no such directory'')), ex_world0)"
    by (simp add: ex_manager_def ex_state_def NewManager_def)
  have i: "ID ex_lib = 1" "ID (ex_lib\<lparr>Folder := ''/gone''\<rparr>) = 1"
    by (simp_all add: ex_lib_def)
  have 1: "workerCompletedMap (snd (updateLibraryQueue ex_manager ex_lib (ex_state))) 1 = Some True"
    using worker_always_marks_completed [of ex_manager ex_lib "ex_state"] i by simp
  have 2: "updateLibraryQueue ex_manager (ex_lib\<lparr>Folder := ''/gone''\<rparr>) (ex_state) =
     (ex_lib\<lparr>Folder := ''/gone''\<rparr>,
      (log Error (message (Err ''no such directory'')) []
         (called (Ev_VideoFiles (Folder (ex_lib\<lparr>Folder := ''/gone''\<rparr>))) ex_world0 (ex_state)))
       \<lparr>workerCompletedMap := (workerCompletedMap (ex_state))(ID (ex_lib\<lparr>Folder := ''/gone''\<rparr>) \<mapsto> True)\<rparr>)"
    using conjunct2 [OF worker_always_marks_completed, rule_format, OF h] .
  show ?thesis
    using 1 2 h i by (simp add: ex_state_def NewManager_def log_def called_def)
qed

text \<open>
  Claim C7. A discovered path makes the loop body stop at the mask filter, with no call to
  a collaborator and no push, if and only if one of the library's masks occurs in it as a
  contiguous run of characters. The skipped path only leaves a debug entry in the log that
  names a mask it contains; a path that contains no mask goes on to the dispatch check.
\<close>

theorem mask_filter:
  "((\<exists>v\<in>set (PathMasks lib). \<exists>a b. p = a @ v @ b) \<longleftrightarrow>
      trace (snd (scan_path m p (lib, s))) = trace s) \<and>
   ((\<exists>v\<in>set (PathMasks lib). \<exists>a b. p = a @ v @ b) \<longrightarrow>
      (\<exists>v\<in>set (PathMasks lib). (\<exists>a b. p = a @ v @ b) \<and>
         scan_path m p (lib, s) =
           (lib, log Debug ''%v skipped because of a mask (%v)'' [ArgString p, ArgString v] s))) \<and>
   (\<not> (\<exists>v\<in>set (PathMasks lib). \<exists>a b. p = a @ v @ b) \<longrightarrow>
      (\<exists>evs. trace (snd (scan_path m p (lib, s))) =
         trace s @ Ev_IsPathDispatched p (fst (ds_IsPathDispatched m p (world s))) # evs))"
proof (cases "find (\<lambda>v. strings_Contains p v) (PathMasks lib)")
  case (Some v)
  have v: "v \<in> set (PathMasks lib) \<and> (\<exists>a b. p = a @ v @ b)"
    using find_mask_Some [OF Some] .
  then have m: "\<exists>v\<in>set (PathMasks lib). \<exists>a b. p = a @ v @ b"
    by blast
  have "\<exists>v\<in>set (PathMasks lib). (\<exists>a b. p = a @ v @ b) \<and>
         scan_path m p (lib, s) =
           (lib, log Debug ''%v skipped because of a mask (%v)'' [ArgString p, ArgString v] s)"
    using v scan_path_masked [OF Some, of m s] by blast
  moreover have "trace (snd (scan_path m p (lib, s))) = trace s"
    by (simp add: scan_path_masked [OF Some])
  ultimately show ?thesis
    using m by blast
next
  case None
  have n: "\<not> (\<exists>v\<in>set (PathMasks lib). \<exists>a b. p = a @ v @ b)"
    using None find_mask_None [of p "PathMasks lib"] by simp
  obtain b err w1 where d: "ds_IsPathDispatched m p (world s) = ((b, err), w1)"
    by (metis surj_pair)
  let ?s = "called (Ev_IsPathDispatched p (b, err)) w1 s"
  have "\<exists>evs. trace (snd (scan_path m p (lib, s))) = trace s @ Ev_IsPathDispatched p (b, err) # evs"
  proof (cases "err = None \<and> \<not> b \<and> p \<notin> Path ` set (Queue lib)")
    case True
    obtain evs where "trace (snd (read_and_decide m p (lib, ?s))) = trace ?s @ evs"
      using read_and_decide_trace [of m p lib ?s] by blast
    then show ?thesis
      using scan_path_proceeds [OF None, of m s w1] d True by simp
  next
    case False
    then show ?thesis
      using None d by (cases err) (auto simp: scan_path_dispatch_error scan_path_filtered)
  qed
  then show ?thesis
    using n d by auto
qed

theorem mask_filter_witness:
  "scan_path ex_manager ''/movies/tmp/a.mkv'' (ex_lib, ex_state) =
     (ex_lib, log Debug ''%v skipped because of a mask (%v)''
                [ArgString ''/movies/tmp/a.mkv'', ArgString ''/tmp/''] (ex_state)) \<and>
   trace (snd (scan_path ex_manager ''/movies/tmp/a.mkv'' (ex_lib, ex_state))) = [] \<and>
   (\<exists>evs. trace (snd (scan_path ex_manager ''/movies/a.mkv'' (ex_lib, ex_state))) =
      Ev_IsPathDispatched ''/movies/a.mkv'' (False, None) # evs)"
proof -
  have m1: "\<exists>v\<in>set (PathMasks ex_lib). \<exists>a b. ''/movies/tmp/a.mkv'' = a @ v @ b"
    by (simp add: ex_lib_def strings_Contains_iff [symmetric])
  have m2: "\<not> (\<exists>v\<in>set (PathMasks ex_lib). \<exists>a b. ''/movies/a.mkv'' = a @ v @ b)"
    by (simp add: ex_lib_def strings_Contains_iff [symmetric])
  have t0: "trace (ex_state) = []"
    by (simp add: ex_state_def NewManager_def)
  have d: "fst (ds_IsPathDispatched ex_manager ''/movies/a.mkv'' (world (ex_state))) = (False, None)"
    by (simp add: ex_manager_def ex_state_def NewManager_def ex_world0_def)
  obtain v where v: "v \<in> set (PathMasks ex_lib)" "\<exists>a b. ''/movies/tmp/a.mkv'' = a @ v @ b"
    "scan_path ex_manager ''/movies/tmp/a.mkv'' (ex_lib, ex_state) =
       (ex_lib, log Debug ''%v skipped because of a mask (%v)'' [ArgString ''/movies/tmp/a.mkv'', ArgString v] (ex_state))"
    using mask_filter [of ex_lib "''/movies/tmp/a.mkv''" ex_manager "ex_state"] m1 by blast
  have "\<not> strings_Contains ''/movies/tmp/a.mkv'' ''_partial''"
    by simp
  then have "\<not> (\<exists>a b. ''/movies/tmp/a.mkv'' = a @ ''_partial'' @ b)"
    unfolding strings_Contains_iff .
  moreover have "v = ''/tmp/'' \<or> v = ''_partial''"
    using v(1) by (simp add: ex_lib_def)
  ultimately have "v = ''/tmp/''"
    using v(2) by blast
  then have 1: "scan_path ex_manager ''/movies/tmp/a.mkv'' (ex_lib, ex_state) =
     (ex_lib, log Debug ''%v skipped because of a mask (%v)''
                [ArgString ''/movies/tmp/a.mkv'', ArgString ''/tmp/''] (ex_state))"
    using v(3) by simp
  have 2: "\<exists>evs. trace (snd (scan_path ex_manager ''/movies/a.mkv'' (ex_lib, ex_state))) =
      trace (ex_state) @ Ev_IsPathDispatched ''/movies/a.mkv''
        (fst (ds_IsPathDispatched ex_manager ''/movies/a.mkv'' (world (ex_state)))) # evs"
    using mask_filter [of ex_lib "''/movies/a.mkv''" ex_manager "ex_state"] m2 by blast
  show ?thesis
    using 1 2 by (simp add: t0 d)
qed

lemma scan_paths_append:
  "scan_paths m (xs @ ys) ls = scan_paths m ys (scan_paths m xs ls)"
  by (induction xs arbitrary: ls) simp_all

text \<open>
  Claim C8. When the dispatch check of a discovered path returns an error, the loop body
  logs the error and leaves the library as it is; the worker then goes on with the paths
  that follow, wherever in the discovered list the path stands.
\<close>

theorem dispatch_error_skips_one_path:
  assumes "\<not> (\<exists>v\<in>set (PathMasks lib). \<exists>a b. p = a @ v @ b)"
    and "ds_IsPathDispatched m p (world s) = ((b, Some e), w1)"
    and "scan_paths m before ls0 = (lib, s)"
  shows "scan_path m p (lib, s) =
           (lib, log Error (message e) [] (called (Ev_IsPathDispatched p (b, Some e)) w1 s)) \<and>
         scan_paths m (before @ p # rest) ls0 =
           scan_paths m rest
             (lib, log Error (message e) [] (called (Ev_IsPathDispatched p (b, Some e)) w1 s))"
proof -
  have n: "find (\<lambda>v. strings_Contains p v) (PathMasks lib) = None"
    using assms(1) find_mask_None [of p "PathMasks lib"] by simp
  have "scan_path m p (lib, s) =
      (lib, log Error (message e) [] (called (Ev_IsPathDispatched p (b, Some e)) w1 s))"
    using scan_path_dispatch_error [OF n assms(2)] .
  then show ?thesis
    using assms(3) by (simp add: scan_paths_append)
qed

theorem dispatch_error_skips_one_path_witness:
  "scan_path ex_manager ''/media/locked.mkv'' (ex_lib, ex_state) =
     (ex_lib, log Error ''database is locked'' []
        (called (Ev_IsPathDispatched ''/media/locked.mkv'' (False, Some (Err ''database is locked'')))
           ex_world0 ex_state)) \<and>
   map Path (Queue (fst (scan_paths ex_manager [''/media/locked.mkv'', ''/media/a.mkv'']
     (ex_lib, ex_state)))) = [''/media/a.mkv'']"
proof -
  let ?s = "log Error (message (Err ''database is locked'')) []
     (called (Ev_IsPathDispatched ''/media/locked.mkv'' (False, Some (Err ''database is locked'')))
        ex_world0 ex_state)"
  have h1: "\<not> (\<exists>v\<in>set (PathMasks ex_lib). \<exists>a b. ''/media/locked.mkv'' = a @ v @ b)"
    by (simp add: ex_lib_def strings_Contains_iff [symmetric])
  have h2: "ds_IsPathDispatched ex_manager ''/media/locked.mkv'' (world ex_state) =
      ((False, Some (Err ''database is locked'')), ex_world0)"
    by (simp add: ex_manager_def ex_state_def NewManager_def)
  have h3: "scan_paths ex_manager [] (ex_lib, ex_state) = (ex_lib, ex_state)"
    by simp
  note t = dispatch_error_skips_one_path [OF h1 h2 h3, of "[''/media/a.mkv'']"]
  have c: "map Path (Queue (fst (scan_paths ex_manager [''/media/a.mkv''] (ex_lib, ?s)))) =
      [''/media/a.mkv'']"
    by code_simp
  have "map Path (Queue (fst (scan_paths ex_manager ([] @ [''/media/locked.mkv'', ''/media/a.mkv''])
     (ex_lib, ex_state)))) = [''/media/a.mkv'']"
    using t c by (simp only: append.simps)
  then show ?thesis
    using t by simp
qed

text \<open>
  Claim C6. When the metadata reader fails on a path that passed the filters, the loop
  body logs the error and then calls the command decider with the metadata value the
  failed read returned; if the decider succeeds, the job pushed onto the queue holds that
  value.
\<close>

theorem failed_read_still_decides:
  assumes "\<not> (\<exists>v\<in>set (PathMasks lib). \<exists>a b. p = a @ v @ b)"
    and "ds_IsPathDispatched m p (world s) = ((False, None), w1)"
    and "p \<notin> Path ` set (Queue lib)"
    and "metadataReader_Read m p w1 = ((md, Some e), w2)"
    and "commandDecider_Decide m md (CommandDeciderSettings lib) w2 = ((cmd, derr), w3)"
    and "uuid_NewString m w3 = (u, w4)"
  shows "(\<exists>evs. trace (snd (scan_path m p (lib, s))) =
            trace s @ [Ev_IsPathDispatched p (False, None), Ev_Read p,
                       Ev_Decide md (CommandDeciderSettings lib)] @ evs) \<and>
         logged (snd (scan_path m p (lib, s))) =
           logged s @
             [(Error, ''Skipping %v because of error: %v'', [ArgString p, ArgError e]),
              (case derr of
                 None \<Rightarrow> (Info, ''Added %v to Library %v's queue'', [ArgString p, ArgInt (ID lib)])
               | Some e' \<Rightarrow>
                   (Debug, ''Skipping %v because CommandDecider returned error: %v'',
                    [ArgString p, ArgError e']))] \<and>
         (derr = None \<longrightarrow>
            Queue (fst (scan_path m p (lib, s))) =
              Queue lib @ [\<lparr>UUID = u, Path = p, Command = cmd, Metadata = md\<rparr>])"
proof -
  have n: "find (\<lambda>v. strings_Contains p v) (PathMasks lib) = None"
    using assms(1) find_mask_None [of p "PathMasks lib"] by simp
  let ?s1 = "called (Ev_IsPathDispatched p (False, None)) w1 s"
  have r: "metadataReader_Read m p (world ?s1) = ((md, Some e), w2)"
    using assms(4) by simp
  have p: "scan_path m p (lib, s) = read_and_decide m p (lib, ?s1)"
    using scan_path_proceeds [OF n assms(2,3)] .
  show ?thesis
  proof (cases derr)
    case (Some e')
    then show ?thesis
      using read_and_decide_error [OF r, of lib cmd e' w3] assms(5) by (simp add: p)
  next
    case None
    let ?s3 = "called (Ev_Decide md (CommandDeciderSettings lib)) w3
         (log Error ''Skipping %v because of error: %v'' [ArgString p, ArgError e] (called (Ev_Read p) w2 ?s1))"
    let ?lib = "lib\<lparr>Queue := Queue lib @ [\<lparr>UUID = u, Path = p, Command = cmd, Metadata = md\<rparr>]\<rparr>"
    obtain err w5 where sv: "ds_SaveLibrary m ?lib w4 = (err, w5)"
      by (metis surj_pair)
    have u: "uuid_NewString m (world ?s3) = (u, w4)"
      using assms(6) by simp
    have "scan_path m p (lib, s) = enqueue m p md cmd (lib, ?s3)"
      using read_and_decide_ok [OF r, of lib cmd w3] assms(5) None by (simp add: p)
    then show ?thesis
      using enqueue_eq [OF u sv] None by simp
  qed
qed

theorem failed_read_still_decides_witness:
  "metadataReader_Read ex_manager ''/media/broken.mkv'' ex_world0 =
     ((0, Some (Err ''not a video'')), ex_world0) \<and>
   Queue (fst (scan_path ex_manager ''/media/broken.mkv'' (ex_lib, ex_state))) =
     [\<lparr>UUID = ''u'', Path = ''/media/broken.mkv'', Command = [''ffmpeg'', ''-c:v'', ''hevc''],
       Metadata = 0\<rparr>] \<and>
   logged (snd (scan_path ex_manager ''/media/broken.mkv'' (ex_lib, ex_state))) =
     [(Error, ''Skipping %v because of error: %v'', [ArgString ''/media/broken.mkv'', ArgError (Err ''not a video'')]),
      (Info, ''Added %v to Library %v's queue'', [ArgString ''/media/broken.mkv'', ArgInt 1])]"
proof -
  have h1: "\<not> (\<exists>v\<in>set (PathMasks ex_lib). \<exists>a b. ''/media/broken.mkv'' = a @ v @ b)"
    by (simp add: ex_lib_def strings_Contains_iff [symmetric])
  have h2: "ds_IsPathDispatched ex_manager ''/media/broken.mkv'' (world ex_state) =
      ((False, None), ex_world0)"
    by (simp add: ex_manager_def ex_state_def NewManager_def ex_world0_def)
  have h3: "''/media/broken.mkv'' \<notin> Path ` set (Queue ex_lib)"
    by (simp add: ex_lib_def)
  have h4: "metadataReader_Read ex_manager ''/media/broken.mkv'' ex_world0 =
      ((0, Some (Err ''not a video'')), ex_world0)"
    by (simp add: ex_manager_def)
  have h5: "commandDecider_Decide ex_manager 0 (CommandDeciderSettings ex_lib) ex_world0 =
      (([''ffmpeg'', ''-c:v'', ''hevc''], None), ex_world0)"
    by (simp add: ex_manager_def ex_lib_def)
  have h6: "uuid_NewString ex_manager ex_world0 = (''u'', ex_world0\<lparr>issued := 1\<rparr>)"
    by (simp add: ex_manager_def ex_world0_def)
  note t = failed_read_still_decides [OF h1 h2 h3 h4 h5 h6]
  have l: "logged ex_state = []" "Queue ex_lib = []" "ID ex_lib = 1"
    by (simp_all add: ex_state_def NewManager_def ex_lib_def)
  show ?thesis
    using t h4 by (simp add: l)
qed

text \<open>The result of \<^verbatim>\<open>SaveLibrary\<close> is not looked at.\<close>

lemma enqueue_save_result:
  "enqueue (m\<lparr>ds_SaveLibrary := \<lambda>l w. (None, snd (ds_SaveLibrary m l w))\<rparr>) p md cmd ls =
   enqueue m p md cmd ls"
  by (cases ls) (simp add: enqueue_def Let_def case_prod_beta)

lemma read_and_decide_save_result:
  "read_and_decide (m\<lparr>ds_SaveLibrary := \<lambda>l w. (None, snd (ds_SaveLibrary m l w))\<rparr>) p ls =
   read_and_decide m p ls"
  by (cases ls)
    (simp add: read_and_decide_def enqueue_save_result Let_def split: option.splits prod.splits)

lemma scan_path_save_result:
  "scan_path (m\<lparr>ds_SaveLibrary := \<lambda>l w. (None, snd (ds_SaveLibrary m l w))\<rparr>) p ls =
   scan_path m p ls"
  by (cases ls)
    (simp add: scan_path_def read_and_decide_save_result Let_def split: option.splits prod.splits)

lemma scan_paths_save_result:
  "scan_paths (m\<lparr>ds_SaveLibrary := \<lambda>l w. (None, snd (ds_SaveLibrary m l w))\<rparr>) ps ls =
   scan_paths m ps ls"
  by (induction ps arbitrary: ls) (simp_all add: scan_path_save_result)

lemma updateLibraryQueue_save_result:
  "updateLibraryQueue (m\<lparr>ds_SaveLibrary := \<lambda>l w. (None, snd (ds_SaveLibrary m l w))\<rparr>) lib s =
   updateLibraryQueue m lib s"
  by (simp add: updateLibraryQueue_def scan_paths_save_result Let_def
      split: option.splits prod.splits)

text \<open>
  Claim C10. When \<^verbatim>\<open>SaveLibrary\<close> fails right after a push, the job stays at the end of
  the worker's queue, the log gets the entry of the push and none for the failure, and the
  worker goes on with the paths that follow. A whole run of the worker is the run it
  would have been had every \<^verbatim>\<open>SaveLibrary\<close> reported success with the same effect.
\<close>

theorem save_error_is_dropped:
  assumes "\<not> (\<exists>v\<in>set (PathMasks lib). \<exists>a b. p = a @ v @ b)"
    and "ds_IsPathDispatched m p (world s) = ((False, None), w1)"
    and "p \<notin> Path ` set (Queue lib)"
    and "metadataReader_Read m p w1 = ((md, rerr), w2)"
    and "commandDecider_Decide m md (CommandDeciderSettings lib) w2 = ((cmd, None), w3)"
    and "uuid_NewString m w3 = (u, w4)"
    and "ds_SaveLibrary m
           (lib\<lparr>Queue := Queue lib @ [\<lparr>UUID = u, Path = p, Command = cmd, Metadata = md\<rparr>]\<rparr>) w4 =
         (Some e, w5)"
    and "scan_paths m before ls0 = (lib, s)"
  shows "Queue (fst (scan_path m p (lib, s))) =
           Queue lib @ [\<lparr>UUID = u, Path = p, Command = cmd, Metadata = md\<rparr>] \<and>
         logged (snd (scan_path m p (lib, s))) =
           logged s @
             (case rerr of
                Some e' \<Rightarrow> [(Error, ''Skipping %v because of error: %v'', [ArgString p, ArgError e'])]
              | None \<Rightarrow> []) @
             [(Info, ''Added %v to Library %v's queue'', [ArgString p, ArgInt (ID lib)])] \<and>
         scan_paths m (before @ p # rest) ls0 = scan_paths m rest (scan_path m p (lib, s)) \<and>
         updateLibraryQueue m lib0 s0 =
           updateLibraryQueue (m\<lparr>ds_SaveLibrary := \<lambda>l w. (None, snd (ds_SaveLibrary m l w))\<rparr>)
             lib0 s0"
proof -
  have n: "find (\<lambda>v. strings_Contains p v) (PathMasks lib) = None"
    using assms(1) find_mask_None [of p "PathMasks lib"] by simp
  let ?s1 = "called (Ev_IsPathDispatched p (False, None)) w1 s"
  let ?s3 = "called (Ev_Decide md (CommandDeciderSettings lib)) w3
       ((case rerr of
           Some e' \<Rightarrow> log Error ''Skipping %v because of error: %v'' [ArgString p, ArgError e']
         | None \<Rightarrow> id) (called (Ev_Read p) w2 ?s1))"
  have r: "metadataReader_Read m p (world ?s1) = ((md, rerr), w2)"
    using assms(4) by simp
  have u: "uuid_NewString m (world ?s3) = (u, w4)"
    using assms(6) by simp
  have "scan_path m p (lib, s) = read_and_decide m p (lib, ?s1)"
    using scan_path_proceeds [OF n assms(2,3)] .
  also have "\<dots> = enqueue m p md cmd (lib, ?s3)"
    using read_and_decide_ok [OF r assms(5)] .
  finally have "scan_path m p (lib, s) = enqueue m p md cmd (lib, ?s3)" .
  then have "Queue (fst (scan_path m p (lib, s))) =
           Queue lib @ [\<lparr>UUID = u, Path = p, Command = cmd, Metadata = md\<rparr>] \<and>
         logged (snd (scan_path m p (lib, s))) =
           logged s @
             (case rerr of
                Some e' \<Rightarrow> [(Error, ''Skipping %v because of error: %v'', [ArgString p, ArgError e'])]
              | None \<Rightarrow> []) @
             [(Info, ''Added %v to Library %v's queue'', [ArgString p, ArgInt (ID lib)])]"
    using enqueue_eq [OF u assms(7)] by (cases rerr) simp_all
  moreover have "scan_paths m (before @ p # rest) ls0 = scan_paths m rest (scan_path m p (lib, s))"
    using assms(8) by (simp add: scan_paths_append)
  ultimately show ?thesis
    by (simp add: updateLibraryQueue_save_result)
qed

text \<open>The small installation with a store that cannot save.\<close>

theorem save_error_is_dropped_witness:
  "ds_SaveLibrary (ex_manager\<lparr>ds_SaveLibrary := \<lambda>l w. (Some (Err ''disk full''), w)\<rparr>)
     (ex_lib\<lparr>Queue := [ex_job ''/media/a.mkv'']\<rparr>) (ex_world0\<lparr>issued := 1\<rparr>) =
     (Some (Err ''disk full''), ex_world0\<lparr>issued := 1\<rparr>) \<and>
   Queue (fst (scan_path (ex_manager\<lparr>ds_SaveLibrary := \<lambda>l w. (Some (Err ''disk full''), w)\<rparr>)
     ''/media/a.mkv'' (ex_lib, ex_state))) = [ex_job ''/media/a.mkv''] \<and>
   logged (snd (scan_path (ex_manager\<lparr>ds_SaveLibrary := \<lambda>l w. (Some (Err ''disk full''), w)\<rparr>)
     ''/media/a.mkv'' (ex_lib, ex_state))) =
     [(Info, ''Added %v to Library %v's queue'', [ArgString ''/media/a.mkv'', ArgInt 1])] \<and>
   map Path (Queue (fst (scan_paths (ex_manager\<lparr>ds_SaveLibrary := \<lambda>l w. (Some (Err ''disk full''), w)\<rparr>)
     [''/media/a.mkv'', ''/media/broken.mkv''] (ex_lib, ex_state)))) =
     [''/media/a.mkv'', ''/media/broken.mkv'']"
proof -
  let ?m = "ex_manager\<lparr>ds_SaveLibrary := \<lambda>l w. (Some (Err ''disk full''), w)\<rparr>"
  have h1: "\<not> (\<exists>v\<in>set (PathMasks ex_lib). \<exists>a b. ''/media/a.mkv'' = a @ v @ b)"
    by (simp add: ex_lib_def strings_Contains_iff [symmetric])
  have h2: "ds_IsPathDispatched ?m ''/media/a.mkv'' (world ex_state) = ((False, None), ex_world0)"
    by (simp add: ex_manager_def ex_state_def NewManager_def ex_world0_def)
  have h3: "''/media/a.mkv'' \<notin> Path ` set (Queue ex_lib)"
    by (simp add: ex_lib_def)
  have h4: "metadataReader_Read ?m ''/media/a.mkv'' ex_world0 = ((12, None), ex_world0)"
    by (simp add: ex_manager_def)
  have h5: "commandDecider_Decide ?m 12 (CommandDeciderSettings ex_lib) ex_world0 =
      (([''ffmpeg'', ''-c:v'', ''hevc''], None), ex_world0)"
    by (simp add: ex_manager_def ex_lib_def)
  have h6: "uuid_NewString ?m ex_world0 = (''u'', ex_world0\<lparr>issued := 1\<rparr>)"
    by (simp add: ex_manager_def ex_world0_def)
  have h7: "ds_SaveLibrary ?m
      (ex_lib\<lparr>Queue := Queue ex_lib @
         [\<lparr>UUID = ''u'', Path = ''/media/a.mkv'', Command = [''ffmpeg'', ''-c:v'', ''hevc''],
           Metadata = 12\<rparr>]\<rparr>) (ex_world0\<lparr>issued := 1\<rparr>) =
      (Some (Err ''disk full''), ex_world0\<lparr>issued := 1\<rparr>)"
    by simp
  have h8: "scan_paths ?m [] (ex_lib, ex_state) = (ex_lib, ex_state)"
    by simp
  note t = save_error_is_dropped [OF h1 h2 h3 h4 h5 h6 h7 h8, of "[''/media/broken.mkv'']"]
  have l: "logged ex_state = []" "Queue ex_lib = []" "ID ex_lib = 1"
    by (simp_all add: ex_state_def NewManager_def ex_lib_def)
  have j: "ex_job ''/media/a.mkv'' =
      \<lparr>UUID = ''u'', Path = ''/media/a.mkv'', Command = [''ffmpeg'', ''-c:v'', ''hevc''], Metadata = 12\<rparr>"
    by (simp add: ex_job_def)
  have c: "map Path (Queue (fst (scan_paths ?m [''/media/broken.mkv'']
      (scan_path ?m ''/media/a.mkv'' (ex_lib, ex_state))))) = [''/media/a.mkv'', ''/media/broken.mkv'']"
    by code_simp
  have "map Path (Queue (fst (scan_paths ?m ([] @ [''/media/a.mkv'', ''/media/broken.mkv''])
      (ex_lib, ex_state)))) = [''/media/a.mkv'', ''/media/broken.mkv'']"
    using t c by (simp only: append.simps)
  then show ?thesis
    using t by (simp add: l j)
qed

section \<open>The scheduler loop\<close>

lemma time_Sub_greater:
  "minDuration \<le> d \<Longrightarrow> d < maxDuration \<Longrightarrow> d < time_Sub t u \<longleftrightarrow> d < t - u"
  by (auto simp: time_Sub_def Let_def)

lemma lookup_lastChecked_eq:
  "lookup_lastChecked i s =
     (lastChecked s i, s\<lparr>lastCheckedTimes := (lastCheckedTimes s)(i \<mapsto> lastChecked s i)\<rparr>)"
  by (cases "lastCheckedTimes s i")
    (simp_all add: lookup_lastChecked_def lastChecked_def map_upd_triv)

lemma lookup_workerCompleted_eq:
  "lookup_workerCompleted i s =
     (workerCompleted s i, s\<lparr>workerCompletedMap := (workerCompletedMap s)(i \<mapsto> workerCompleted s i)\<rparr>)"
  by (cases "workerCompletedMap s i")
    (simp_all add: lookup_workerCompleted_def workerCompleted_def map_upd_triv)

lemma workerCompleted_lastCheckedTimes_update:
  "workerCompleted (s\<lparr>lastCheckedTimes := f\<rparr>) i = workerCompleted s i"
  by (simp add: workerCompleted_def)

lemma schedule_library_due:
  assumes "time_Now m (world s) = (now, w1)" and "time_Now m w1 = (now', w2)"
    and "FsCheckInterval lib < time_Sub now (lastChecked s (ID lib))" and "workerCompleted s (ID lib)"
  shows "schedule_library m lib (s, launched) =
    (s\<lparr>lastCheckedTimes := (lastCheckedTimes s)(ID lib \<mapsto> now'),
       workerCompletedMap := (workerCompletedMap s)(ID lib \<mapsto> False),
       logged := logged s @ [(Debug, ''Initiating library (ID: %v) update'', [ArgInt (ID lib)])],
       world := w2\<rparr>,
     launched @ [lib])"
  using assms
  by (simp add: schedule_library_def lookup_lastChecked_eq lookup_workerCompleted_eq log_def
      workerCompleted_lastCheckedTimes_update Let_def)

lemma schedule_library_not_due:
  assumes "time_Now m (world s) = (now, w1)"
    and "\<not> (FsCheckInterval lib < time_Sub now (lastChecked s (ID lib)) \<and> workerCompleted s (ID lib))"
  shows "schedule_library m lib (s, launched) =
    (s\<lparr>lastCheckedTimes := (lastCheckedTimes s)(ID lib \<mapsto> lastChecked s (ID lib)),
       workerCompletedMap := (workerCompletedMap s)(ID lib \<mapsto> workerCompleted s (ID lib)),
       world := w1\<rparr>,
     launched)"
  using assms
  by (auto simp add: schedule_library_def lookup_lastChecked_eq lookup_workerCompleted_eq
      workerCompleted_lastCheckedTimes_update Let_def)

text \<open>
  Claim C3. In the scheduler's loop over the fetched libraries, a worker is launched for
  the library at hand if and only if the time since its last check, as \<^verbatim>\<open>time.Since\<close>
  measures it at that moment, is greater than its \<^verbatim>\<open>FsCheckInterval\<close> and its
  worker-completed flag is true (a missing entry counts as the epoch and as true). The
  state the launch leaves has the clock's next reading as the last-checked time and the
  flag false. \<^verbatim>\<open>time.Since\<close> is the difference of the two times for every interval
  below the largest \<^verbatim>\<open>Duration\<close>. A pass of the scheduler loop that fetched the libraries
  takes this step for each of them, in the order of the fetched list.
\<close>

theorem worker_launched_iff_due:
  assumes "time_Now m (world s) = (now, w1)" and "time_Now m w1 = (now', w2)"
  shows "snd (schedule_library m lib (s, launched)) =
           (if FsCheckInterval lib < time_Sub now (lastChecked s (ID lib)) \<and>
               workerCompleted s (ID lib)
            then launched @ [lib] else launched) \<and>
         (FsCheckInterval lib < time_Sub now (lastChecked s (ID lib)) \<and>
          workerCompleted s (ID lib) \<longrightarrow>
            lastCheckedTimes (fst (schedule_library m lib (s, launched))) (ID lib) = Some now' \<and>
            workerCompletedMap (fst (schedule_library m lib (s, launched))) (ID lib) = Some False) \<and>
         (minDuration \<le> FsCheckInterval lib \<and> FsCheckInterval lib < maxDuration \<longrightarrow>
            (FsCheckInterval lib < time_Sub now (lastChecked s (ID lib)) \<longleftrightarrow>
             FsCheckInterval lib < now - lastChecked s (ID lib))) \<and>
         (ds_Libraries m (world s0) = ((libs, None), w0) \<longrightarrow>
            Start_tick m s0 =
              foldl (\<lambda>sl lib. schedule_library m lib sl) (called Ev_Libraries w0 s0, []) libs)"
proof -
  have exact: "minDuration \<le> FsCheckInterval lib \<and> FsCheckInterval lib < maxDuration \<longrightarrow>
            (FsCheckInterval lib < time_Sub now (lastChecked s (ID lib)) \<longleftrightarrow>
             FsCheckInterval lib < now - lastChecked s (ID lib))"
    using time_Sub_greater [of "FsCheckInterval lib" now "lastChecked s (ID lib)"] by blast
  have tick: "ds_Libraries m (world s0) = ((libs, None), w0) \<longrightarrow>
      Start_tick m s0 =
        foldl (\<lambda>sl lib. schedule_library m lib sl) (called Ev_Libraries w0 s0, []) libs"
    by (simp add: Start_tick_def)
  have step: "snd (schedule_library m lib (s, launched)) =
           (if FsCheckInterval lib < time_Sub now (lastChecked s (ID lib)) \<and>
               workerCompleted s (ID lib)
            then launched @ [lib] else launched) \<and>
         (FsCheckInterval lib < time_Sub now (lastChecked s (ID lib)) \<and>
          workerCompleted s (ID lib) \<longrightarrow>
            lastCheckedTimes (fst (schedule_library m lib (s, launched))) (ID lib) = Some now' \<and>
            workerCompletedMap (fst (schedule_library m lib (s, launched))) (ID lib) = Some False)"
  proof (cases "FsCheckInterval lib < time_Sub now (lastChecked s (ID lib)) \<and>
      workerCompleted s (ID lib)")
    case True
    have "schedule_library m lib (s, launched) =
      (s\<lparr>lastCheckedTimes := (lastCheckedTimes s)(ID lib \<mapsto> now'),
         workerCompletedMap := (workerCompletedMap s)(ID lib \<mapsto> False),
         logged := logged s @ [(Debug, ''Initiating library (ID: %v) update'', [ArgInt (ID lib)])],
         world := w2\<rparr>,
       launched @ [lib])"
      using schedule_library_due [OF assms, of lib launched] True by blast
    then show ?thesis
      using True by simp
  next
    case False
    have "schedule_library m lib (s, launched) =
      (s\<lparr>lastCheckedTimes := (lastCheckedTimes s)(ID lib \<mapsto> lastChecked s (ID lib)),
         workerCompletedMap := (workerCompletedMap s)(ID lib \<mapsto> workerCompleted s (ID lib)),
         world := w1\<rparr>,
       launched)"
      using schedule_library_not_due [OF assms(1) False] .
    then have "snd (schedule_library m lib (s, launched)) = launched"
      by simp
    then show ?thesis
      using False by (intro conjI) (simp, blast)
  qed
  show ?thesis
    using step exact tick by blast
qed

theorem worker_launched_iff_due_witness:
  "snd (schedule_library ex_manager ex_lib (ex_state, [])) = [ex_lib] \<and>
   lastCheckedTimes (fst (schedule_library ex_manager ex_lib (ex_state, []))) 1 =
     Some 1793491200001000000 \<and>
   workerCompletedMap (fst (schedule_library ex_manager ex_lib (ex_state, []))) 1 = Some False \<and>
   snd (schedule_library ex_manager ex_lib
          (fst (schedule_library ex_manager ex_lib (ex_state, [])), [])) = []"
proof -
  let ?w1 = "ex_world0\<lparr>clock := 1793491200001000000\<rparr>"
  let ?w2 = "ex_world0\<lparr>clock := 1793491200002000000\<rparr>"
  let ?w3 = "ex_world0\<lparr>clock := 1793491200003000000\<rparr>"
  let ?w4 = "ex_world0\<lparr>clock := 1793491200004000000\<rparr>"
  let ?s = "fst (schedule_library ex_manager ex_lib (ex_state, []))"
  have n1: "time_Now ex_manager (world ex_state) = (1793491200000000000, ?w1)"
    by (simp add: ex_manager_def ex_state_def NewManager_def ex_world0_def)
  have n2: "time_Now ex_manager ?w1 = (1793491200001000000, ?w2)"
    by (simp add: ex_manager_def ex_world0_def)
  have i: "ID ex_lib = 1" "FsCheckInterval ex_lib = 10000000000"
    by (simp_all add: ex_lib_def)
  have l: "lastChecked ex_state 1 = 0" "workerCompleted ex_state 1"
    by (simp_all add: lastChecked_def workerCompleted_def ex_state_def NewManager_def time_Unix00_def)
  have d: "(10000000000::int) < time_Sub 1793491200000000000 0"
    by (simp add: time_Sub_def maxDuration_def minDuration_def)
  note t1 = worker_launched_iff_due [OF n1 n2, of ex_lib "[]"]
  have 1: "snd (schedule_library ex_manager ex_lib (ex_state, [])) = [ex_lib]"
    "lastCheckedTimes ?s 1 = Some 1793491200001000000"
    "workerCompletedMap ?s 1 = Some False"
    using t1 d by (simp_all add: i l)
  have w: "world ?s = ?w2"
    using schedule_library_due [OF n1 n2, of ex_lib "[]"] d by (simp add: i l)
  have n3: "time_Now ex_manager (world ?s) = (1793491200002000000, ?w3)"
    by (simp add: w) (simp add: ex_manager_def ex_world0_def)
  have n4: "time_Now ex_manager ?w3 = (1793491200003000000, ?w4)"
    by (simp add: ex_manager_def ex_world0_def)
  have "\<not> workerCompleted ?s 1"
    using 1(3) by (simp add: workerCompleted_def)
  then have 2: "snd (schedule_library ex_manager ex_lib (?s, [])) = []"
    using worker_launched_iff_due [OF n3 n4, of ex_lib "[]"] by (simp add: i)
  show ?thesis
    using 1 2 by simp
qed

text \<open>
  In a state the manager reaches, a library whose worker-completed flag is false has a
  last-checked time.
\<close>

lemma schedule_library_flag:
  assumes "\<forall>i. lastCheckedTimes s i = None \<longrightarrow> workerCompletedMap s i \<noteq> Some False"
  shows "\<forall>i. lastCheckedTimes (fst (schedule_library m lib (s, launched))) i = None \<longrightarrow>
     workerCompletedMap (fst (schedule_library m lib (s, launched))) i \<noteq> Some False"
proof -
  obtain now w1 where n1: "time_Now m (world s) = (now, w1)"
    by (metis surj_pair)
  obtain now' w2 where n2: "time_Now m w1 = (now', w2)"
    by (metis surj_pair)
  show ?thesis
  proof (cases "FsCheckInterval lib < time_Sub now (lastChecked s (ID lib)) \<and> workerCompleted s (ID lib)")
    case True
    then show ?thesis
      using schedule_library_due [OF n1 n2, of lib launched] assms by simp
  next
    case False
    then show ?thesis
      using schedule_library_not_due [OF n1, of lib launched] assms by simp
  qed
qed

lemma schedule_libraries_flag:
  "(\<forall>i. lastCheckedTimes (fst sl) i = None \<longrightarrow> workerCompletedMap (fst sl) i \<noteq> Some False) \<Longrightarrow>
   (\<forall>i. lastCheckedTimes (fst (foldl (\<lambda>sl lib. schedule_library m lib sl) sl libs)) i = None \<longrightarrow>
     workerCompletedMap (fst (foldl (\<lambda>sl lib. schedule_library m lib sl) sl libs)) i \<noteq> Some False)"
proof (induction libs arbitrary: sl)
  case Nil
  then show ?case by simp
next
  case (Cons lib libs)
  obtain s launched where sl: "sl = (s, launched)" by (cases sl)
  show ?case
    using Cons.IH [of "schedule_library m lib sl"] schedule_library_flag [of s m lib launched]
      Cons.prems by (simp add: sl)
qed

lemma Start_tick_flag:
  assumes "\<forall>i. lastCheckedTimes s i = None \<longrightarrow> workerCompletedMap s i \<noteq> Some False"
  shows "\<forall>i. lastCheckedTimes (fst (Start_tick m s)) i = None \<longrightarrow>
     workerCompletedMap (fst (Start_tick m s)) i \<noteq> Some False"
proof -
  obtain libs err w1 where l: "ds_Libraries m (world s) = ((libs, err), w1)"
    by (metis surj_pair)
  show ?thesis
  proof (cases err)
    case (Some e)
    then show ?thesis
      using assms l by (simp add: Start_tick_def)
  next
    case None
    then show ?thesis
      using schedule_libraries_flag [of "(called Ev_Libraries w1 s, [])" m libs] assms l
      by (simp add: Start_tick_def)
  qed
qed

lemma reachable_flag:
  "reachable m s \<Longrightarrow> lastCheckedTimes s i = None \<Longrightarrow> workerCompletedMap s i \<noteq> Some False"
proof (induction arbitrary: i rule: reachable.induct)
  case (reachable_new w)
  show ?case by (simp add: NewManager_def)
next
  case (reachable_schedule s lib launched)
  then show ?case
    using schedule_library_flag [of s m lib launched] by blast
next
  case (reachable_tick s)
  then show ?case
    using Start_tick_flag [of s m] by blast
next
  case (reachable_worker s lib)
  then show ?case
    by (simp add: updateLibraryQueue_frame)
qed

text \<open>
  Claim C4, as amended. A library whose ID has no entry in \<^verbatim>\<open>lastCheckedTimes\<close>, in any
  state the manager reaches, is given the epoch as its last-checked time, and a worker is
  launched for it in that pass if and only if its \<^verbatim>\<open>FsCheckInterval\<close> is smaller than the
  time since the epoch, as \<^verbatim>\<open>time.Since\<close> measures it: the launch then overwrites
  the epoch with the clock's next reading, and otherwise the epoch stays.
\<close>

theorem never_seen_library_due_since_epoch:
  assumes "reachable m s" and "lastCheckedTimes s (ID lib) = None"
    and "time_Now m (world s) = (now, w1)" and "time_Now m w1 = (now', w2)"
  shows "snd (schedule_library m lib (s, launched)) =
           (if FsCheckInterval lib < time_Sub now time_Unix00 then launched @ [lib] else launched) \<and>
         lastCheckedTimes (fst (schedule_library m lib (s, launched))) (ID lib) =
           Some (if FsCheckInterval lib < time_Sub now time_Unix00 then now' else time_Unix00)"
proof -
  have t: "lastChecked s (ID lib) = time_Unix00"
    using assms(2) by (simp add: lastChecked_def)
  have "workerCompletedMap s (ID lib) \<noteq> Some False"
    using reachable_flag [OF assms(1,2)] .
  then have f: "workerCompleted s (ID lib)"
    by (cases "workerCompletedMap s (ID lib)") (simp_all add: workerCompleted_def)
  show ?thesis
  proof (cases "FsCheckInterval lib < time_Sub now time_Unix00")
    case True
    then show ?thesis
      using schedule_library_due [OF assms(3,4), of lib launched] t f by simp
  next
    case False
    then show ?thesis
      using schedule_library_not_due [OF assms(3), of lib launched] t by simp
  qed
qed

theorem never_seen_library_due_since_epoch_witness:
  "reachable ex_manager ex_state \<and> lastCheckedTimes ex_state (ID ex_lib) = None \<and>
   FsCheckInterval ex_lib = 10000000000 \<and>
   snd (schedule_library ex_manager ex_lib (ex_state, [])) = [ex_lib] \<and>
   lastCheckedTimes (fst (schedule_library ex_manager ex_lib (ex_state, []))) (ID ex_lib) =
     Some 1793491200001000000"
proof -
  let ?w1 = "ex_world0\<lparr>clock := 1793491200001000000\<rparr>"
  let ?w2 = "ex_world0\<lparr>clock := 1793491200002000000\<rparr>"
  have r: "reachable ex_manager ex_state"
    unfolding ex_state_def by (rule reachable_new)
  have e: "lastCheckedTimes ex_state (ID ex_lib) = None"
    by (simp add: ex_state_def NewManager_def)
  have n1: "time_Now ex_manager (world ex_state) = (1793491200000000000, ?w1)"
    by (simp add: ex_manager_def ex_state_def NewManager_def ex_world0_def)
  have n2: "time_Now ex_manager ?w1 = (1793491200001000000, ?w2)"
    by (simp add: ex_manager_def ex_world0_def)
  have i: "FsCheckInterval ex_lib = 10000000000"
    by (simp add: ex_lib_def)
  have d: "(10000000000::int) < time_Sub 1793491200000000000 time_Unix00"
    by (simp add: time_Sub_def maxDuration_def minDuration_def time_Unix00_def)
  note t = never_seen_library_due_since_epoch [OF r e n1 n2, of "[]"]
  show ?thesis
    using t r e d by (simp add: i)
qed

text \<open>
  A library that was never seen, with a positive interval of ninety-five years, at a pass
  of the scheduler on the first of November 2026: no worker is launched, and its
  last-checked time stays the epoch.
\<close>

theorem never_seen_library_long_interval_counterexample:
  "lastCheckedTimes ex_state (ID (ex_lib\<lparr>FsCheckInterval := 3000000000000000000\<rparr>)) = None \<and>
   0 < FsCheckInterval (ex_lib\<lparr>FsCheckInterval := 3000000000000000000\<rparr>) \<and>
   FsCheckInterval (ex_lib\<lparr>FsCheckInterval := 3000000000000000000\<rparr>) \<le> maxDuration \<and>
   snd (schedule_library ex_manager (ex_lib\<lparr>FsCheckInterval := 3000000000000000000\<rparr>)
          (ex_state, [])) = [] \<and>
   lastCheckedTimes
     (fst (schedule_library ex_manager (ex_lib\<lparr>FsCheckInterval := 3000000000000000000\<rparr>)
        (ex_state, []))) 1 = Some 0 \<and>
   snd (Start_tick ex_manager
          (NewManager (ex_world0\<lparr>store := [ex_lib\<lparr>FsCheckInterval := 3000000000000000000\<rparr>]\<rparr>))) = []"
  by code_simp

section \<open>Runs of scans\<close>

lemma updateLibraryQueue_dedup:
  assumes "store_keeps m stored" and "distinct (map Path (Queue lib))"
    and "dedup_invariant stored s"
  shows "dedup_invariant stored (snd (updateLibraryQueue m lib s))"
proof -
  obtain evs where e: "trace (snd (updateLibraryQueue m lib s)) = trace s @ evs"
    "\<forall>c. dispatch_respected c evs"
    using updateLibraryQueue_trace [of m lib s] by blast
  have "dispatch_respected None (trace s @ evs)"
    using assms(3) e(2) by (simp add: dedup_invariant_def dispatch_respected_append)
  then show ?thesis
    using updateLibraryQueue_safe [OF assms(1,2), of s] assms(3) e(1)
    by (simp add: dedup_invariant_def)
qed

lemma schedule_library_dedup:
  assumes "store_keeps m stored" and "distinct (map Path (Queue lib))"
    and "dedup_invariant stored s" and "queues_distinct (set launched)"
  shows "dedup_invariant stored (fst (schedule_library m lib (s, launched))) \<and>
    queues_distinct (set (snd (schedule_library m lib (s, launched))))"
proof -
  obtain now w1 where n1: "time_Now m (world s) = (now, w1)"
    by (metis surj_pair)
  obtain now' w2 where n2: "time_Now m w1 = (now', w2)"
    by (metis surj_pair)
  have q1: "queues_distinct (stored w1)"
    using store_keepsD(8) [OF assms(1) _ n1] assms(3) by (simp add: dedup_invariant_def)
  have q2: "queues_distinct (stored w2)"
    using store_keepsD(8) [OF assms(1) q1 n2] .
  show ?thesis
  proof (cases "FsCheckInterval lib < time_Sub now (lastChecked s (ID lib)) \<and> workerCompleted s (ID lib)")
    case True
    then show ?thesis
      using schedule_library_due [OF n1 n2, of lib launched] assms(2,3,4) q2
      by (simp add: dedup_invariant_def queues_distinct_def)
  next
    case False
    then show ?thesis
      using schedule_library_not_due [OF n1, of lib launched] assms(3,4) q1
      by (simp add: dedup_invariant_def)
  qed
qed

lemma schedule_libraries_dedup:
  assumes "store_keeps m stored"
  shows "queues_distinct (set libs) \<Longrightarrow> dedup_invariant stored (fst sl) \<Longrightarrow>
    queues_distinct (set (snd sl)) \<Longrightarrow>
    dedup_invariant stored (fst (foldl (\<lambda>sl lib. schedule_library m lib sl) sl libs)) \<and>
    queues_distinct (set (snd (foldl (\<lambda>sl lib. schedule_library m lib sl) sl libs)))"
proof (induction libs arbitrary: sl)
  case Nil
  then show ?case by simp
next
  case (Cons lib libs)
  obtain s launched where sl: "sl = (s, launched)" by (cases sl)
  have d: "distinct (map Path (Queue lib))" and r: "queues_distinct (set libs)"
    using Cons.prems(1) by (simp_all add: queues_distinct_def)
  have "dedup_invariant stored (fst (schedule_library m lib (s, launched))) \<and>
    queues_distinct (set (snd (schedule_library m lib (s, launched))))"
    using schedule_library_dedup [OF assms d, of s launched] Cons.prems(2,3) by (simp add: sl)
  then show ?case
    using Cons.IH [OF r, of "schedule_library m lib (s, launched)"] by (simp add: sl)
qed

lemma Start_tick_dedup:
  assumes "store_keeps m stored" and "dedup_invariant stored s"
  shows "dedup_invariant stored (fst (Start_tick m s)) \<and>
    queues_distinct (set (snd (Start_tick m s)))"
proof -
  obtain libs err w1 where l: "ds_Libraries m (world s) = ((libs, err), w1)"
    by (metis surj_pair)
  have q: "queues_distinct (set libs) \<and> queues_distinct (stored w1)"
    using store_keepsD(1) [OF assms(1) _ l] assms(2) by (simp add: dedup_invariant_def)
  have "dispatch_respected None (trace s @ [Ev_Libraries])"
    using assms(2) by (simp add: dedup_invariant_def dispatch_respected_append)
  then have i: "dedup_invariant stored (called Ev_Libraries w1 s)"
    using q assms(2) by (simp add: dedup_invariant_def)
  show ?thesis
  proof (cases err)
    case (Some e)
    then show ?thesis
      using i l by (simp add: Start_tick_def dedup_invariant_def queues_distinct_def)
  next
    case None
    then show ?thesis
      using schedule_libraries_dedup [OF assms(1), of libs "(called Ev_Libraries w1 s, [])"] q i l
      by (simp add: Start_tick_def queues_distinct_def)
  qed
qed

lemma do_step_dedup:
  assumes "store_keeps m stored"
    and "dedup_invariant stored s" and "queues_distinct (set pending)"
  shows "dedup_invariant stored (fst (do_step m st (s, pending))) \<and>
    queues_distinct (set (snd (do_step m st (s, pending))))"
proof (cases st)
  case Tick
  obtain s1 launched where t: "Start_tick m s = (s1, launched)"
    by (metis surj_pair)
  have "dedup_invariant stored s1 \<and> queues_distinct (set launched)"
    using Start_tick_dedup [OF assms(1,2)] t by simp
  then show ?thesis
    using assms(3) t Tick by (simp add: queues_distinct_Un)
next
  case (Run k)
  show ?thesis
  proof (cases "k < length pending")
    case True
    have "pending ! k \<in> set pending"
      using True by simp
    then have d: "distinct (map Path (Queue (pending ! k)))"
      using assms(3) unfolding queues_distinct_def by blast
    have "set (take k pending @ drop (Suc k) pending) \<subseteq> set pending"
      using set_take_subset [of k pending] set_drop_subset [of "Suc k" pending] by auto
    then have "queues_distinct (set (take k pending @ drop (Suc k) pending))"
      using assms(3) queues_distinct_mono by blast
    then show ?thesis
      using updateLibraryQueue_dedup [OF assms(1) d assms(2)] True Run by simp
  next
    case False
    then show ?thesis
      using assms(2,3) Run by simp
  qed
qed

lemma run_steps_dedup:
  assumes "store_keeps m stored"
  shows "dedup_invariant stored (fst sp) \<Longrightarrow> queues_distinct (set (snd sp)) \<Longrightarrow>
    dedup_invariant stored (fst (run_steps m steps sp)) \<and>
    queues_distinct (set (snd (run_steps m steps sp)))"
proof (induction steps arbitrary: sp)
  case Nil
  then show ?case by (simp add: run_steps_def)
next
  case (Cons st steps)
  obtain s pending where sp: "sp = (s, pending)" by (cases sp)
  have "dedup_invariant stored (fst (do_step m st (s, pending))) \<and>
    queues_distinct (set (snd (do_step m st (s, pending))))"
    using do_step_dedup [OF assms, of s pending st] Cons.prems by (simp add: sp)
  then have "dedup_invariant stored (fst (run_steps m steps (do_step m st (s, pending)))) \<and>
    queues_distinct (set (snd (run_steps m steps (do_step m st (s, pending)))))"
    using Cons.IH [of "do_step m st (s, pending)"] by blast
  then show ?case
    by (simp add: run_steps_def sp)
qed

lemma scan_path_dispatched:
  assumes "ds_IsPathDispatched m p (world s) = ((True, err), w1)"
  shows "fst (scan_path m p (lib, s)) = lib"
proof (cases "find (\<lambda>v. strings_Contains p v) (PathMasks lib)")
  case (Some v)
  then show ?thesis by (simp add: scan_path_masked)
next
  case None
  then show ?thesis
    using assms by (cases err) (simp_all add: scan_path_dispatch_error scan_path_filtered)
qed

text \<open>
  Claim C2. Take a data store that only holds libraries it held before or was given to save.
  If no queue in the store has a path twice when the manager starts, then after any run
  of scheduler passes and workers no queue in the store and no library that a worker
  saved, that is, no queue as it stood after a push, has a path twice; and every push in
  the trace follows a dispatch check of its own path that answered "not dispatched". In any
  state, a path the store reports as dispatched leaves the worker's queue as it is.
\<close>

theorem queues_hold_no_path_twice:
  assumes "store_keeps m stored" and "queues_distinct (stored w)"
  shows "queues_distinct (stored (world (fst (run_steps m steps (NewManager w, []))))) \<and>
         queues_distinct
           {l. Ev_SaveLibrary l \<in> set (trace (fst (run_steps m steps (NewManager w, []))))} \<and>
         dispatch_respected None (trace (fst (run_steps m steps (NewManager w, [])))) \<and>
         (ds_IsPathDispatched m p (world s) = ((True, err), w1) \<longrightarrow>
            fst (scan_path m p (lib, s)) = lib)"
proof -
  have "dedup_invariant stored (NewManager w)"
    using assms(2) by (simp add: dedup_invariant_def NewManager_def queues_distinct_def)
  then have "dedup_invariant stored (fst (run_steps m steps (NewManager w, [])))"
    using run_steps_dedup [OF assms(1), of "(NewManager w, [])" steps]
    by (simp add: queues_distinct_def)
  then show ?thesis
    using scan_path_dispatched [of m p s err w1 lib] by (simp add: dedup_invariant_def)
qed

text \<open>
  The small installation with a library that is due at every pass, and a run of two
  passes, each followed by the worker it launched: the second worker finds the paths of
  the first in the queue, and the store ends with each of the two queued paths once.
\<close>

theorem queues_hold_no_path_twice_witness:
  "store_keeps ex_manager (\<lambda>w. set (store w)) \<and>
   queues_distinct (set (store (ex_world0\<lparr>store := [ex_lib\<lparr>FsCheckInterval := 1\<rparr>]\<rparr>))) \<and>
   queues_distinct (set (store (world (fst (run_steps ex_manager [Tick, Run 0, Tick, Run 0]
     (NewManager (ex_world0\<lparr>store := [ex_lib\<lparr>FsCheckInterval := 1\<rparr>]\<rparr>), [])))))) \<and>
   map (\<lambda>l. map Path (Queue l))
     (store (world (fst (run_steps ex_manager [Tick, Run 0, Tick, Run 0]
       (NewManager (ex_world0\<lparr>store := [ex_lib\<lparr>FsCheckInterval := 1\<rparr>]\<rparr>), []))))) =
     [[''/media/a.mkv'', ''/media/broken.mkv'']] \<and>
   dispatch_respected None (trace (fst (run_steps ex_manager [Tick, Run 0, Tick, Run 0]
     (NewManager (ex_world0\<lparr>store := [ex_lib\<lparr>FsCheckInterval := 1\<rparr>]\<rparr>), [])))) \<and>
   ds_IsPathDispatched ex_manager ''/media/sent.mkv'' (world ex_state) = ((True, None), ex_world0) \<and>
   fst (scan_path ex_manager ''/media/sent.mkv'' (ex_lib, ex_state)) = ex_lib"
proof -
  let ?w = "ex_world0\<lparr>store := [ex_lib\<lparr>FsCheckInterval := 1\<rparr>]\<rparr>"
  have k: "store_keeps ex_manager (\<lambda>w. set (store w))"
    by (auto simp: store_keeps_def ex_manager_def)
  have q: "queues_distinct (set (store ?w))"
    by (simp add: queues_distinct_def ex_lib_def)
  have d: "ds_IsPathDispatched ex_manager ''/media/sent.mkv'' (world ex_state) =
      ((True, None), ex_world0)"
    by (simp add: ex_manager_def ex_state_def NewManager_def ex_world0_def)
  note t = queues_hold_no_path_twice [OF k q, of "[Tick, Run 0, Tick, Run 0]"
      "''/media/sent.mkv''" ex_state None ex_world0 ex_lib]
  have c: "map (\<lambda>l. map Path (Queue l))
     (store (world (fst (run_steps ex_manager [Tick, Run 0, Tick, Run 0] (NewManager ?w, []))))) =
     [[''/media/a.mkv'', ''/media/broken.mkv'']]"
    by code_simp
  show ?thesis
    using t k q d c by blast
qed

section \<open>The job dispatch operations\<close>

text \<open>
  Claim C1. \<^verbatim>\<open>PopNewJob\<close> is required to return the first job of the libraries in order of
  priority. The method does not: it logs that it is not implemented, asks the store for
  nothing and returns the zero Job. With library A (priority 5, a queue of job1) and
  library B (priority 10, a queue of job2) in the store, the required job is job2 and the
  method returns a job with no path.
\<close>

theorem PopNewJob_returns_the_zero_job:
  "spec_PopNewJob
     [ex_lib\<lparr>Priority := 5, Queue := [ex_job ''/media/job1.mkv'']\<rparr>,
      ex_lib\<lparr>ID := 2, Priority := 10, Queue := [ex_job ''/media/job2.mkv'']\<rparr>] =
     Some (ex_job ''/media/job2.mkv'') \<and>
   PopNewJob ex_manager
     (NewManager (ex_world0\<lparr>store :=
        [ex_lib\<lparr>Priority := 5, Queue := [ex_job ''/media/job1.mkv'']\<rparr>,
         ex_lib\<lparr>ID := 2, Priority := 10, Queue := [ex_job ''/media/job2.mkv'']\<rparr>]\<rparr>)) =
     (\<lparr>UUID = [], Path = [], Command = [], Metadata = 0\<rparr>,
      \<lparr>lastCheckedTimes = Map.empty, workerCompletedMap = Map.empty,
       logged = [(Critical, ''Not implemented'', [])], trace = [],
       world = ex_world0\<lparr>store :=
        [ex_lib\<lparr>Priority := 5, Queue := [ex_job ''/media/job1.mkv'']\<rparr>,
         ex_lib\<lparr>ID := 2, Priority := 10, Queue := [ex_job ''/media/job2.mkv'']\<rparr>]\<rparr>\<rparr>)"
proof -
  have "spec_PopNewJob
     [ex_lib\<lparr>Priority := 5, Queue := [ex_job ''/media/job1.mkv'']\<rparr>,
      ex_lib\<lparr>ID := 2, Priority := 10, Queue := [ex_job ''/media/job2.mkv'']\<rparr>] =
     Some (ex_job ''/media/job2.mkv'')"
    by code_simp
  then show ?thesis
    by (simp add: PopNewJob_def NewManager_def log_def)
qed

text \<open>
  Claim C9. \<^verbatim>\<open>UpdateLibrarySettings\<close> is required to replace every field of a library
  named in the map but its ID and its Queue. The method does not: it logs that it is not
  implemented and changes nothing. With library 1 and its three queued jobs in the store
  and new settings for library 1 in the map, the store still holds the old folder,
  priority, interval, masks and decider settings after the call.
\<close>

theorem UpdateLibrarySettings_changes_nothing:
  "spec_UpdateLibrarySettings
     [1 \<mapsto> \<lparr>ID = 1, Folder = ''/films'', Priority = 9, FsCheckInterval = 60000000000, Queue = [],
             PathMasks = [], CommandDeciderSettings = ''av1''\<rparr>]
     [ex_lib\<lparr>Queue := [ex_job ''/media/a.mkv'', ex_job ''/media/b.mkv'', ex_job ''/media/c.mkv'']\<rparr>] =
     [\<lparr>ID = 1, Folder = ''/films'', Priority = 9, FsCheckInterval = 60000000000,
       Queue = [ex_job ''/media/a.mkv'', ex_job ''/media/b.mkv'', ex_job ''/media/c.mkv''],
       PathMasks = [], CommandDeciderSettings = ''av1''\<rparr>] \<and>
   fst (fst (ds_Libraries ex_manager (world (UpdateLibrarySettings ex_manager
     [1 \<mapsto> \<lparr>ID = 1, Folder = ''/films'', Priority = 9, FsCheckInterval = 60000000000, Queue = [],
             PathMasks = [], CommandDeciderSettings = ''av1''\<rparr>]
     (NewManager (ex_world0\<lparr>store :=
        [ex_lib\<lparr>Queue := [ex_job ''/media/a.mkv'', ex_job ''/media/b.mkv'',
                           ex_job ''/media/c.mkv'']\<rparr>]\<rparr>)))))) =
     [\<lparr>ID = 1, Folder = ''/media'', Priority = 5, FsCheckInterval = 10000000000,
       Queue = [ex_job ''/media/a.mkv'', ex_job ''/media/b.mkv'', ex_job ''/media/c.mkv''],
       PathMasks = [''/tmp/'', ''_partial''], CommandDeciderSettings = ''hevc''\<rparr>] \<and>
   logged (UpdateLibrarySettings ex_manager
     [1 \<mapsto> \<lparr>ID = 1, Folder = ''/films'', Priority = 9, FsCheckInterval = 60000000000, Queue = [],
             PathMasks = [], CommandDeciderSettings = ''av1''\<rparr>]
     (NewManager (ex_world0\<lparr>store :=
        [ex_lib\<lparr>Queue := [ex_job ''/media/a.mkv'', ex_job ''/media/b.mkv'',
                           ex_job ''/media/c.mkv'']\<rparr>]\<rparr>))) =
     [(Critical, ''Not implemented'', [])]"
  by (simp add: spec_UpdateLibrarySettings_def UpdateLibrarySettings_def NewManager_def log_def
      ex_manager_def ex_lib_def ex_world0_def)

end
